theory Spec2Isabelle
  imports Main "HOL-Library.Char_ord" "HOL-Library.List_Lexorder"
begin

section \<open>Python strings\<close>

text \<open>
  A Python \<^verbatim>\<open>str\<close> is modelled as a \<^typ>\<open>string\<close> whose characters are the code points
  0 to 255 (the Latin-1 range); \<^verbatim>\<open>bytes\<close> are a \<^typ>\<open>string\<close> too, one character per byte.
  The functions below are the \<^verbatim>\<open>str\<close> methods the program calls, on that range. The
  library functions of this and the following sections (\<^verbatim>\<open>str\<close>,
  \<^verbatim>\<open>xml.etree.ElementTree\<close>, \<^verbatim>\<open>pathlib\<close>) are modelled as CPython 3.11 defines them.
\<close>

type_synonym bytes = string

text \<open>\<^verbatim>\<open>str.isspace\<close> on one character: the white space of the range.\<close>

definition isspace :: "char \<Rightarrow> bool" where
  "isspace c = (let n = (of_char c :: nat) in
     (9 \<le> n \<and> n \<le> 13) \<or> (28 \<le> n \<and> n \<le> 32) \<or> n = 133 \<or> n = 160)"

text \<open>\<^verbatim>\<open>s.strip()\<close>: white space is removed at both ends.\<close>

definition strip :: "string \<Rightarrow> string" where
  "strip s = rev (dropWhile isspace (rev (dropWhile isspace s)))"

text \<open>\<^verbatim>\<open>s.replace(old, new)\<close> for a one-character \<^verbatim>\<open>old\<close>, the only way the program
  and the serializer call it.\<close>

definition replace :: "char \<Rightarrow> string \<Rightarrow> string \<Rightarrow> string" where
  "replace old new s = concat (map (\<lambda>c. if c = old then new else [c]) s)"

text \<open>\<^verbatim>\<open>s.endswith(suffix)\<close>.\<close>

definition endswith :: "string \<Rightarrow> string \<Rightarrow> bool" where
  "endswith s suf = (length suf \<le> length s \<and> drop (length s - length suf) s = suf)"

text \<open>\<^verbatim>\<open>s.lower()\<close>: the letters A to Z and the upper-case letters of Latin-1.\<close>

definition lower_char :: "char \<Rightarrow> char" where
  "lower_char c = (let n = (of_char c :: nat) in
     if (65 \<le> n \<and> n \<le> 90) \<or> (192 \<le> n \<and> n \<le> 222 \<and> n \<noteq> 215)
     then char_of (n + 32) else c)"

definition lower :: "string \<Rightarrow> string" where
  "lower s = map lower_char s"

section \<open>Exceptions\<close>

text \<open>The Python exceptions that the library calls of the program can raise.\<close>

datatype exn = ValueError | KeyError | IndexError | BadZipFile | NotImplementedError

section \<open>The element tree (\<^verbatim>\<open>xml.etree.ElementTree\<close>)\<close>

text \<open>
  An \<^verbatim>\<open>Element\<close> has a tag, a dictionary of attributes in insertion order (the order
  in which they are written), an optional text and its children. \<^verbatim>\<open>ET.SubElement(parent, tag, attrib)\<close> appends a child; the
  tree is written here in its final shape.
\<close>

datatype element =
  Element (tag: string) (attrib: "(string \<times> string) list") (etext: "string option")
    (children: "element list")

text \<open>\<^verbatim>\<open>_namespace_map\<close> as the module defines it: URI to prefix.\<close>

definition namespace_map0 :: "(string \<times> string) list" where
  "namespace_map0 =
    [(''http://www.w3.org/XML/1998/namespace'', ''xml''),
     (''http://www.w3.org/1999/xhtml'', ''html''),
     (''http://www.w3.org/1999/02/22-rdf-syntax-ns#'', ''rdf''),
     (''http://schemas.xmlsoap.org/wsdl/'', ''wsdl''),
     (''http://www.w3.org/2001/XMLSchema'', ''xs''),
     (''http://www.w3.org/2001/XMLSchema-instance'', ''xsi''),
     (''http://purl.org/dc/elements/1.1/'', ''dc'')]"

definition isdigit :: "char \<Rightarrow> bool" where
  "isdigit c = (let n = (of_char c :: nat) in 48 \<le> n \<and> n \<le> 57)"

text \<open>\<^verbatim>\<open>re.match(r"ns\d+$", prefix)\<close>: the prefixes the serializer keeps for itself.\<close>

definition reserved_prefix :: "string \<Rightarrow> bool" where
  "reserved_prefix prefix =
    (take 2 prefix = ''ns'' \<and>
     (let d = takeWhile isdigit (drop 2 prefix); r = dropWhile isdigit (drop 2 prefix)
      in d \<noteq> [] \<and> (r = [] \<or> r = [CHR 0x0A])))"

text \<open>
  \<^verbatim>\<open>register_namespace(prefix, uri)\<close>: every entry with that URI or that prefix is
  deleted, then the URI is mapped to the prefix. A reserved prefix raises.
\<close>

definition register_namespace ::
  "string \<Rightarrow> string \<Rightarrow> (string \<times> string) list \<Rightarrow> exn + (string \<times> string) list" where
  "register_namespace prefix uri namespace_map =
    (if reserved_prefix prefix then Inl ValueError
     else Inr (filter (\<lambda>(k, v). \<not> (k = uri \<or> v = prefix)) namespace_map @ [(uri, prefix)]))"

text \<open>\<^verbatim>\<open>"%d" % n\<close>\<close>

fun decimal :: "nat \<Rightarrow> string" where
  "decimal n =
    (if n < 10 then [char_of (48 + n)] else decimal (n div 10) @ [char_of (48 + n mod 10)])"

text \<open>\<^verbatim>\<open>s.rsplit(sep, 1)\<close> unpacked into two values: without a separator in \<^verbatim>\<open>s\<close> the
  unpacking raises.\<close>

definition rsplit1 :: "char \<Rightarrow> string \<Rightarrow> (string \<times> string) option" where
  "rsplit1 sep s =
    (if sep \<in> set s
     then Some (rev (drop 1 (dropWhile (\<lambda>c. c \<noteq> sep) (rev s))),
                rev (takeWhile (\<lambda>c. c \<noteq> sep) (rev s)))
     else None)"

text \<open>
  The two tables of \<^verbatim>\<open>_namespaces\<close>: \<^verbatim>\<open>qnames\<close> maps a name of the tree to the text
  written for it, \<^verbatim>\<open>namespaces\<close> maps the URIs in use to their prefixes.
  \<^verbatim>\<open>add_qname\<close> is called for a name that \<^verbatim>\<open>qnames\<close> does not hold yet; no default
  namespace is passed.
\<close>

type_synonym tables = "(string \<times> string) list \<times> (string \<times> string) list"

definition add_qname :: "(string \<times> string) list \<Rightarrow> tables \<Rightarrow> string \<Rightarrow> exn + tables" where
  "add_qname namespace_map tb qname =
    (case tb of (qnames, namespaces) \<Rightarrow>
      if take 1 qname = ''{'' then
        (case rsplit1 (CHR ''}'') (drop 1 qname) of
          None \<Rightarrow> Inl ValueError
        | Some (uri, tg) \<Rightarrow>
            (case map_of namespaces uri of
              Some prefix \<Rightarrow>
                Inr (qnames @ [(qname, if prefix \<noteq> [] then prefix @ '':'' @ tg else tg)],
                     namespaces)
            | None \<Rightarrow>
                (let prefix = (case map_of namespace_map uri of
                                 Some p \<Rightarrow> p
                               | None \<Rightarrow> ''ns'' @ decimal (length namespaces))
                 in Inr (qnames @ [(qname, if prefix \<noteq> [] then prefix @ '':'' @ tg else tg)],
                         if prefix \<noteq> ''xml'' then namespaces @ [(uri, prefix)]
                         else namespaces))))
      else Inr (qnames @ [(qname, qname)], namespaces))"

text \<open>The names \<^verbatim>\<open>_namespaces\<close> visits, in its order: \<^verbatim>\<open>elem.iter()\<close> is the tree in
  document order, and of each element the tag comes first, then the attribute keys.\<close>

fun names_of :: "element \<Rightarrow> string list" where
  "names_of (Element t a x cs) = t # map fst a @ concat (map names_of cs)"

fun scan_names :: "(string \<times> string) list \<Rightarrow> tables \<Rightarrow> string list \<Rightarrow> exn + tables" where
  "scan_names namespace_map tb [] = Inr tb"
| "scan_names namespace_map tb (q # qs) =
    (if map_of (fst tb) q \<noteq> None then scan_names namespace_map tb qs
     else (case add_qname namespace_map tb q of
             Inl e \<Rightarrow> Inl e
           | Inr tb' \<Rightarrow> scan_names namespace_map tb' qs))"

text \<open>\<^verbatim>\<open>_escape_cdata\<close> and \<^verbatim>\<open>_escape_attrib\<close>: the replacements, in the order of the
  library.\<close>

definition escape_cdata :: "string \<Rightarrow> string" where
  "escape_cdata s =
    replace (CHR ''>'') ''&gt;'' (replace (CHR ''<'') ''&lt;'' (replace (CHR ''&'') ''&amp;'' s))"

definition escape_attrib :: "string \<Rightarrow> string" where
  "escape_attrib s =
    replace (CHR 0x09) ''&#09;'' (replace (CHR 0x0A) ''&#10;'' (replace (CHR 0x0D) ''&#13;''
      (replace (CHR 0x22) ''&quot;'' (replace (CHR ''>'') ''&gt;''
        (replace (CHR ''<'') ''&lt;'' (replace (CHR ''&'') ''&amp;'' s))))))"

text \<open>Results in order, up to the first exception.\<close>

fun sequence :: "('e + 'a) list \<Rightarrow> 'e + 'a list" where
  "sequence [] = Inr []"
| "sequence (r # rs) =
    (case r of
      Inl e \<Rightarrow> Inl e
    | Inr v \<Rightarrow> (case sequence rs of Inl e \<Rightarrow> Inl e | Inr vs \<Rightarrow> Inr (v # vs)))"

text \<open>The namespace declarations of the root, sorted on the prefix.\<close>

definition write_xmlns :: "(string \<times> string) list \<Rightarrow> string" where
  \<open>write_xmlns namespaces =
    concat (map (\<lambda>(v, k). '' xmlns'' @ (if k \<noteq> [] then '':'' @ k else []) @ ''="''
                   @ escape_attrib v @ ''"'')
             (sort_key snd namespaces))\<close>

text \<open>One attribute; \<^verbatim>\<open>qnames[k]\<close> raises for a key the table does not hold.\<close>

definition write_item :: "(string \<times> string) list \<Rightarrow> string \<times> string \<Rightarrow> exn + string" where
  \<open>write_item qnames kv =
    (case kv of (k, v) \<Rightarrow>
      (case map_of qnames k of
        None \<Rightarrow> Inl KeyError
      | Some q \<Rightarrow> Inr ('' '' @ q @ ''="'' @ escape_attrib v @ ''"'')))\<close>

text \<open>\<^verbatim>\<open>if text:\<close> holds for a text that is neither \<^verbatim>\<open>None\<close> nor empty.\<close>

definition truthy :: "string option \<Rightarrow> bool" where
  "truthy x = (case x of None \<Rightarrow> False | Some s \<Rightarrow> s \<noteq> [])"

text \<open>
  \<^verbatim>\<open>_serialize_xml\<close> with \<^verbatim>\<open>short_empty_elements=True\<close>, for elements whose tags are
  strings and whose tails are \<^verbatim>\<open>None\<close>. The root is given the namespaces, a child none.
\<close>

fun serialize_xml ::
  "(string \<times> string) list \<Rightarrow> (string \<times> string) list \<Rightarrow> element \<Rightarrow> exn + string" where
  "serialize_xml qnames namespaces (Element t items x cs) =
    (case map_of qnames t of
      None \<Rightarrow> Inl KeyError
    | Some tg \<Rightarrow>
        (case sequence (map (write_item qnames) items) of
          Inl e \<Rightarrow> Inl e
        | Inr attrs \<Rightarrow>
            (case sequence (map (serialize_xml qnames []) cs) of
              Inl e \<Rightarrow> Inl e
            | Inr body \<Rightarrow>
                Inr (''<'' @ tg @ write_xmlns namespaces @ concat attrs @
                     (if truthy x \<or> cs \<noteq> []
                      then ''>'' @ (case x of None \<Rightarrow> [] | Some s \<Rightarrow> escape_cdata s)
                           @ concat body @ ''</'' @ tg @ ''>''
                      else '' />'')))))"

text \<open>The UTF-8 encoding of the code points 0 to 255.\<close>

definition utf8_char :: "char \<Rightarrow> bytes" where
  "utf8_char c = (let n = (of_char c :: nat) in
     if n < 128 then [c] else [char_of (192 + n div 64), char_of (128 + n mod 64)])"

definition encode_utf8 :: "string \<Rightarrow> bytes" where
  "encode_utf8 s = concat (map utf8_char s)"

text \<open>
  \<^verbatim>\<open>ET.tostring(root, encoding='utf-8', method='xml')\<close>: for this encoding
  \<^verbatim>\<open>ElementTree.write\<close> writes no declaration of its own.
\<close>

definition tostring :: "(string \<times> string) list \<Rightarrow> element \<Rightarrow> exn + bytes" where
  "tostring namespace_map root =
    (case scan_names namespace_map ([], []) (names_of root) of
      Inl e \<Rightarrow> Inl e
    | Inr (qnames, namespaces) \<Rightarrow>
        (case serialize_xml qnames namespaces root of
          Inl e \<Rightarrow> Inl e
        | Inr s \<Rightarrow> Inr (encode_utf8 s)))"

text \<open>\<^verbatim>\<open>root.findall("a/b/c")\<close>, the path given as its steps; \<^verbatim>\<open>elem.get(key)\<close>.\<close>

fun findall :: "string list \<Rightarrow> element \<Rightarrow> element list" where
  "findall [] e = [e]"
| "findall (t # ts) e = concat (map (findall ts) (filter (\<lambda>c. tag c = t) (children e)))"

definition get :: "element \<Rightarrow> string \<Rightarrow> string option" where
  "get e key = map_of (attrib e) key"

section \<open>The manifest (\<^verbatim>\<open>generate_manifest\<close>)\<close>

text \<open>The three calls of \<^verbatim>\<open>ET.register_namespace\<close>, on the registry of the module. (The
  registry is global; a later call of \<^verbatim>\<open>generate_manifest\<close> in the same process finds the
  three entries there and leaves the same mapping.)\<close>

definition registered :: "exn + (string \<times> string) list" where
  "registered =
    (case register_namespace [] ''http://www.imsglobal.org/xsd/imscp_v1p1'' namespace_map0 of
      Inl e \<Rightarrow> Inl e
    | Inr m1 \<Rightarrow>
        (case register_namespace ''adlcp'' ''http://www.adlnet.org/xsd/adlcp_v1p3'' m1 of
          Inl e \<Rightarrow> Inl e
        | Inr m2 \<Rightarrow> register_namespace ''xsi'' ''http://www.w3.org/2001/XMLSchema-instance'' m2))"

text \<open>One \<^verbatim>\<open>file\<close> child: \<^verbatim>\<open>ET.SubElement(res, 'file', {'href': f.replace('\\', '/')})\<close>.\<close>

definition file_element :: "string \<Rightarrow> element" where
  "file_element f = Element ''file'' [(''href'', replace (CHR 0x5C) ''/'' f)] None []"

text \<open>The tree that lines 29 to 57 build; \<^verbatim>\<open>sorted\<close> orders strings by code point.\<close>

definition manifest_tree :: "string \<Rightarrow> string \<Rightarrow> string \<Rightarrow> string list \<Rightarrow> element" where
  "manifest_tree title identifier launch_file file_list =
    Element ''manifest'' [(''identifier'', identifier), (''version'', ''1'')] None
      [Element ''metadata'' [] None
         [Element ''schema'' [] (Some ''ADL SCORM'') [],
          Element ''schemaversion'' [] (Some ''1.2'') []],
       Element ''organizations'' [(''default'', ''ORG-1'')] None
         [Element ''organization'' [(''identifier'', ''ORG-1'')] None
            [Element ''title'' [] (Some title) [],
             Element ''item'' [(''identifier'', ''ITEM-1''), (''identifierref'', ''RES-1'')] None
               [Element ''title'' [] (Some title) []]]],
       Element ''resources'' [] None
         [Element ''resource''
            [(''identifier'', ''RES-1''), (''type'', ''webcontent''),
             (''{http://www.adlnet.org/xsd/adlcp_v1p3}scormtype'', ''sco''),
             (''href'', launch_file)] None
            (map file_element (sort file_list))]]"

text \<open>Lines 59 and 60: the declaration, a newline, the serialized tree.\<close>

definition generate_manifest :: "string \<Rightarrow> string \<Rightarrow> string \<Rightarrow> string list \<Rightarrow> exn + bytes" where
  \<open>generate_manifest title identifier launch_file file_list =
    (case registered of
      Inl e \<Rightarrow> Inl e
    | Inr namespace_map \<Rightarrow>
        (case tostring namespace_map (manifest_tree title identifier launch_file file_list) of
          Inl e \<Rightarrow> Inl e
        | Inr xml_bytes \<Rightarrow>
            Inr (''<?xml version="1.0" encoding="UTF-8"?>'' @ [CHR 0x0A] @ xml_bytes)))\<close>

text \<open>The \<^verbatim>\<open>href\<close> attributes of the \<^verbatim>\<open>file\<close> children of the resource, in document
  order.\<close>

definition file_hrefs :: "element \<Rightarrow> string option list" where
  "file_hrefs manifest =
    map (\<lambda>f. get f ''href'') (findall [''resources'', ''resource'', ''file''] manifest)"

section \<open>The staged tree (\<^verbatim>\<open>pathlib\<close>)\<close>

text \<open>
  The directory \<^verbatim>\<open>course_root\<close> is the list of its entries in the order in which
  \<^verbatim>\<open>os.scandir\<close> yields them, an order the operating system chooses. An entry is a
  regular file with its bytes or a directory with its entries. Names are compared as they
  are written (a case-sensitive file system, the POSIX flavour of \<^verbatim>\<open>pathlib\<close>); the
  separator of the flavour is a parameter.
\<close>

datatype entry = File string bytes | Dir string "entry list"

text \<open>The name of a directory entry is not empty, is neither \<^verbatim>\<open>.\<close> nor \<^verbatim>\<open>..\<close>, and holds
  neither a slash nor a NUL character; on a POSIX file system it may hold a backslash.\<close>

fun entry_name :: "entry \<Rightarrow> string" where
  "entry_name (File n b) = n"
| "entry_name (Dir n es) = n"

fun is_file :: "entry \<Rightarrow> bool" where
  "is_file (File n b) = True"
| "is_file (Dir n es) = False"

text \<open>A path below \<^verbatim>\<open>course_root\<close>: its parts relative to the root
  (\<^verbatim>\<open>p.relative_to(course_root)\<close>) and the entry it names.\<close>

type_synonym path = "string list \<times> entry"

text \<open>\<^verbatim>\<open>sep.join(parts)\<close>, and \<^verbatim>\<open>str(rel)\<close> of a relative path in a flavour with
  separator \<^verbatim>\<open>sep\<close>.\<close>

fun join :: "string \<Rightarrow> string list \<Rightarrow> string" where
  "join sep [] = []"
| "join sep [p] = p"
| "join sep (p # q # ps) = p @ sep @ join sep (q # ps)"

definition str_path :: "char \<Rightarrow> string list \<Rightarrow> string" where
  "str_path sep parts = join [sep] parts"

text \<open>\<^verbatim>\<open>fnmatch\<close> for a pattern of literal characters and \<^verbatim>\<open>*\<close>, matched against a
  whole name.\<close>

fun fnmatch :: "string \<Rightarrow> string \<Rightarrow> bool" where
  "fnmatch [] name = (name = [])"
| "fnmatch (p # ps) [] = (p = CHR ''*'' \<and> fnmatch ps [])"
| "fnmatch (p # ps) (c # cs) =
    (if p = CHR ''*'' then fnmatch ps (c # cs) \<or> fnmatch (p # ps) cs
     else p = c \<and> fnmatch ps cs)"

text \<open>\<^verbatim>\<open>_RecursiveWildcardSelector._iterate_directories\<close>: a directory, then the
  directories below each of its sub-directories, in the order of the entries.\<close>

fun iterate_directories :: "string list \<Rightarrow> entry list \<Rightarrow> (string list \<times> entry list) list" where
  "iterate_directories parent entries =
    (parent, entries) #
    concat (map (\<lambda>e. case e of
                        Dir n sub \<Rightarrow> iterate_directories (parent @ [n]) sub
                      | File n b \<Rightarrow> [])
             entries)"

text \<open>\<^verbatim>\<open>_WildcardSelector._select_from\<close> as the last selector: the entries of one
  directory whose names match, files and directories alike.\<close>

definition select_from :: "string \<Rightarrow> string list \<times> entry list \<Rightarrow> path list" where
  "select_from pat d =
    (case d of (parent, entries) \<Rightarrow>
      map (\<lambda>e. (parent @ [entry_name e], e)) (filter (\<lambda>e. fnmatch pat (entry_name e)) entries))"

text \<open>\<^verbatim>\<open>course_root.rglob(pat)\<close> for a pattern of one component.\<close>

definition rglob :: "string \<Rightarrow> entry list \<Rightarrow> path list" where
  "rglob pat course_root = concat (map (select_from pat) (iterate_directories [] course_root))"

text \<open>\<^verbatim>\<open>(course_root / name).exists()\<close>\<close>

definition exists_in_root :: "string \<Rightarrow> entry list \<Rightarrow> bool" where
  "exists_in_root n course_root = (n \<in> set (map entry_name course_root))"

section \<open>The script\<close>

text \<open>
  The script ends in one of three ways before the download is offered:
  \<^verbatim>\<open>st.error('Uploaded file is not a valid ZIP.')\<close> and \<^verbatim>\<open>st.stop()\<close>, which the
  specification calls \<^verbatim>\<open>InvalidArchive\<close>; \<^verbatim>\<open>st.error('No HTML files found in uploaded
  content.')\<close> and \<^verbatim>\<open>st.stop()\<close>, which it calls \<^verbatim>\<open>NoContentFound\<close>; or an exception
  that no handler catches.
\<close>

datatype stop = InvalidArchive | NoContentFound | Uncaught exn

text \<open>The upload: \<^verbatim>\<open>uploaded.name\<close> and \<^verbatim>\<open>uploaded.getbuffer()\<close>.\<close>

record uploaded_file =
  name :: string
  buffer :: bytes

text \<open>
  Lines 78 to 90. \<^verbatim>\<open>extractall\<close> stands for \<^verbatim>\<open>zipfile.ZipFile(path, 'r')\<close> followed by
  \<^verbatim>\<open>z.extractall(course_root)\<close> on the written bytes: the entries it leaves in the empty
  \<^verbatim>\<open>course_root\<close>, or the exception it raises. Only \<^verbatim>\<open>zipfile.BadZipFile\<close> is caught.
\<close>

definition stage :: "(bytes \<Rightarrow> exn + entry list) \<Rightarrow> uploaded_file \<Rightarrow> stop + entry list" where
  "stage extractall uploaded =
    (if endswith (lower (name uploaded)) ''.zip'' then
       (case extractall (buffer uploaded) of
          Inl e \<Rightarrow> if e = BadZipFile then Inl InvalidArchive else Inl (Uncaught e)
        | Inr course_root \<Rightarrow> Inr course_root)
     else
       (let target_name =
              (if endswith (lower (name uploaded)) ''index.html''
                  \<or> endswith (lower (name uploaded)) ''index.htm''
               then name uploaded else ''index.html'')
        in Inr [File target_name (buffer uploaded)]))"

text \<open>Line 92.\<close>

definition html_files :: "entry list \<Rightarrow> path list" where
  "html_files course_root = rglob ''*.html'' course_root @ rglob ''*.htm'' course_root"

text \<open>Lines 102, 108 and 116: \<^verbatim>\<open>str(rel).replace('\\', '/')\<close>.\<close>

definition rel_str :: "char \<Rightarrow> path \<Rightarrow> string" where
  "rel_str sep p = replace (CHR 0x5C) ''/'' (str_path sep (fst p))"

text \<open>Lines 104 to 108.\<close>

definition file_list :: "char \<Rightarrow> entry list \<Rightarrow> string list" where
  "file_list sep course_root =
    map (rel_str sep) (filter (\<lambda>p. is_file (snd p)) (rglob ''*'' course_root))"

text \<open>Lines 92 to 108: the launch file and the file list, or the stop of line 95.\<close>

definition resolve :: "char \<Rightarrow> entry list \<Rightarrow> stop + string \<times> string list" where
  "resolve sep course_root =
    (case html_files course_root of
      [] \<Rightarrow> Inl NoContentFound
    | p # ps \<Rightarrow>
        Inr (if exists_in_root ''index.html'' course_root then ''index.html'' else rel_str sep p,
             file_list sep course_root))"

text \<open>\<^verbatim>\<open>s.split(sep)\<close> for a one-character separator.\<close>

fun split :: "char \<Rightarrow> string \<Rightarrow> string list" where
  "split sep [] = [[]]"
| "split sep (c # cs) =
    (if c = sep then [] # split sep cs
     else (case split sep cs of [] \<Rightarrow> [[c]] | x # xs \<Rightarrow> (c # x) # xs))"

text \<open>The loop of \<^verbatim>\<open>posixpath.normpath\<close> over the components of the path.\<close>

fun norm_comps :: "bool \<Rightarrow> string list \<Rightarrow> string list \<Rightarrow> string list" where
  "norm_comps initial_slashes new_comps [] = new_comps"
| "norm_comps initial_slashes new_comps (part # comps) =
    (if part = [] \<or> part = ''.'' then norm_comps initial_slashes new_comps comps
     else if part \<noteq> ''..'' \<or> (\<not> initial_slashes \<and> new_comps = [])
             \<or> (new_comps \<noteq> [] \<and> last new_comps = ''..'')
       then norm_comps initial_slashes (new_comps @ [part]) comps
     else if new_comps \<noteq> [] then norm_comps initial_slashes (butlast new_comps) comps
     else norm_comps initial_slashes new_comps comps)"

text \<open>\<^verbatim>\<open>os.path.normpath\<close> of the POSIX flavour.\<close>

definition normpath :: "string \<Rightarrow> string" where
  "normpath path =
    (if path = [] then ''.''
     else
       (let initial_slashes =
              (if take 1 path = ''/''
               then (if take 2 path = ''//'' \<and> take 3 path \<noteq> ''///'' then 2 else 1)
               else (0 :: nat));
            comps = norm_comps (initial_slashes \<noteq> 0) [] (split (CHR ''/'') path);
            p = replicate initial_slashes (CHR ''/'') @ join ''/'' comps
        in if p = [] then ''.'' else p))"

text \<open>
  The name under which \<^verbatim>\<open>zf.write(p, arcname)\<close> stores a regular file
  (\<^verbatim>\<open>ZipInfo.from_file\<close>): the normalised \<^verbatim>\<open>arcname\<close> without its leading separators;
  \<^verbatim>\<open>arcname[0]\<close> raises when nothing is left. This is the POSIX flavour, which has no drive
  and no second separator. (On the flavour whose separator is the backslash, no name holds
  a slash, a backslash or a colon; the \<^verbatim>\<open>arcname\<close> is then a relative path of such names
  and is stored as it is, which is also what this definition gives.)
\<close>

definition zip_arcname :: "string \<Rightarrow> exn + string" where
  "zip_arcname arcname =
    (let stripped = dropWhile (\<lambda>c. c = CHR ''/'') (normpath arcname)
     in if stripped = [] then Inl IndexError else Inr stripped)"

text \<open>Lines 112 to 118: the entries written to the archive, in order, each with its name
  and bytes; the generated manifest is written last, under the name it is given.\<close>

fun file_bytes :: "entry \<Rightarrow> bytes" where
  "file_bytes (File n b) = b"
| "file_bytes (Dir n es) = []"

definition archive_entries ::
  "char \<Rightarrow> entry list \<Rightarrow> bytes \<Rightarrow> exn + (string \<times> bytes) list" where
  "archive_entries sep course_root manifest_bytes =
    (case sequence
            (map (\<lambda>p. case zip_arcname (rel_str sep p) of
                         Inl e \<Rightarrow> Inl e
                       | Inr n \<Rightarrow> Inr (n, file_bytes (snd p)))
               (filter (\<lambda>p. is_file (snd p)) (rglob ''*'' course_root))) of
      Inl e \<Rightarrow> Inl e
    | Inr staged \<Rightarrow> Inr (staged @ [(''imsmanifest.xml'', manifest_bytes)]))"

text \<open>
  \<^verbatim>\<open>pkg_name = f"{course_title.strip().replace(' ', '_')}_SCORM.zip"\<close>
\<close>

definition pkg_name :: "string \<Rightarrow> string" where
  "pkg_name course_title = replace (CHR '' '') ''_'' (strip course_title) @ ''_SCORM.zip''"

text \<open>The sanitization as the specification words it: every white-space character
  becomes an underscore, every other character is kept.\<close>

definition spec_sanitize :: "string \<Rightarrow> string" where
  "spec_sanitize s = map (\<lambda>c. if isspace c then CHR ''_'' else c) s"

text \<open>What \<^verbatim>\<open>st.download_button\<close> is given.\<close>

record download =
  file_name :: string
  data :: "(string \<times> bytes) list"

text \<open>The script from line 68 on, for an upload, a title and the identifier of line 66.\<close>

definition app ::
  "char \<Rightarrow> (bytes \<Rightarrow> exn + entry list) \<Rightarrow> string \<Rightarrow> string \<Rightarrow> uploaded_file \<Rightarrow> stop + download" where
  "app sep extractall course_title scorm_id uploaded =
    (case stage extractall uploaded of
      Inl s \<Rightarrow> Inl s
    | Inr course_root \<Rightarrow>
        (case resolve sep course_root of
          Inl s \<Rightarrow> Inl s
        | Inr (launch_file, files) \<Rightarrow>
            (case generate_manifest course_title scorm_id launch_file files of
              Inl e \<Rightarrow> Inl (Uncaught e)
            | Inr manifest_bytes \<Rightarrow>
                (case archive_entries sep course_root manifest_bytes of
                  Inl e \<Rightarrow> Inl (Uncaught e)
                | Inr entries \<Rightarrow>
                    Inr \<lparr>file_name = pkg_name course_title, data = entries\<rparr>))))"

section \<open>Closed forms and notions for the proofs\<close>

text \<open>The registry after the three registrations.\<close>

definition registry :: "(string \<times> string) list" where
  "registry =
    [(''http://www.w3.org/XML/1998/namespace'', ''xml''),
     (''http://www.w3.org/1999/xhtml'', ''html''),
     (''http://www.w3.org/1999/02/22-rdf-syntax-ns#'', ''rdf''),
     (''http://schemas.xmlsoap.org/wsdl/'', ''wsdl''),
     (''http://www.w3.org/2001/XMLSchema'', ''xs''),
     (''http://purl.org/dc/elements/1.1/'', ''dc''),
     (''http://www.imsglobal.org/xsd/imscp_v1p1'', []),
     (''http://www.adlnet.org/xsd/adlcp_v1p3'', ''adlcp''),
     (''http://www.w3.org/2001/XMLSchema-instance'', ''xsi'')]"

text \<open>The names of the tree before its \<^verbatim>\<open>file\<close> children, in the order of the scan.\<close>

definition fixed_names :: "string list" where
  "fixed_names =
    [''manifest'', ''identifier'', ''version'', ''metadata'', ''schema'', ''schemaversion'',
     ''organizations'', ''default'', ''organization'', ''identifier'', ''title'', ''item'',
     ''identifier'', ''identifierref'', ''title'', ''resources'', ''resource'', ''identifier'',
     ''type'', ''{http://www.adlnet.org/xsd/adlcp_v1p3}scormtype'', ''href'']"

text \<open>The two tables after these names.\<close>

definition fixed_qnames :: "(string \<times> string) list" where
  "fixed_qnames =
    [(''manifest'', ''manifest''), (''identifier'', ''identifier''), (''version'', ''version''),
     (''metadata'', ''metadata''), (''schema'', ''schema''),
     (''schemaversion'', ''schemaversion''), (''organizations'', ''organizations''),
     (''default'', ''default''), (''organization'', ''organization''), (''title'', ''title''),
     (''item'', ''item''), (''identifierref'', ''identifierref''),
     (''resources'', ''resources''), (''resource'', ''resource''), (''type'', ''type''),
     (''{http://www.adlnet.org/xsd/adlcp_v1p3}scormtype'', ''adlcp:scormtype''),
     (''href'', ''href'')]"

definition used_namespaces :: "(string \<times> string) list" where
  "used_namespaces = [(''http://www.adlnet.org/xsd/adlcp_v1p3'', ''adlcp'')]"

text \<open>The text written for a \<^verbatim>\<open>title\<close> element, for a \<^verbatim>\<open>file\<close> element, and for the
  whole tree.\<close>

definition title_text :: "string \<Rightarrow> string" where
  "title_text title =
    (if title = [] then ''<title />'' else ''<title>'' @ escape_cdata title @ ''</title>'')"

definition file_text :: "string \<Rightarrow> string" where
  \<open>file_text f = ''<file href="'' @ escape_attrib (replace (CHR 0x5C) ''/'' f) @ ''" />''\<close>

definition manifest_text :: "string \<Rightarrow> string \<Rightarrow> string \<Rightarrow> string list \<Rightarrow> string" where
  \<open>manifest_text title identifier launch_file fs =
    ''<manifest xmlns:adlcp="http://www.adlnet.org/xsd/adlcp_v1p3" identifier="''
    @ escape_attrib identifier
    @ ''" version="1"><metadata><schema>ADL SCORM</schema>''
    @ ''<schemaversion>1.2</schemaversion></metadata>''
    @ ''<organizations default="ORG-1"><organization identifier="ORG-1">''
    @ title_text title
    @ ''<item identifier="ITEM-1" identifierref="RES-1">''
    @ title_text title
    @ ''</item></organization></organizations>''
    @ ''<resources><resource identifier="RES-1" type="webcontent" adlcp:scormtype="sco" href="''
    @ escape_attrib launch_file @ ''"''
    @ (if fs = [] then '' />'' else ''>'' @ concat (map file_text (sort fs)) @ ''</resource>'')
    @ ''</resources></manifest>''\<close>

text \<open>The number of positions of a string at which a pattern starts.\<close>

fun occurrences :: "string \<Rightarrow> string \<Rightarrow> nat" where
  "occurrences pat [] = (if pat = [] then 1 else 0)"
| "occurrences pat (c # cs) =
    (if take (length pat) (c # cs) = pat then 1 else 0) + occurrences pat cs"

text \<open>No \<^verbatim>\<open><\<close> is followed by \<^verbatim>\<open>?\<close>, and the last character is not \<^verbatim>\<open><\<close>.\<close>

fun pi_free :: "string \<Rightarrow> bool" where
  "pi_free [] = True"
| "pi_free [c] = (c \<noteq> CHR ''<'')"
| "pi_free (c # d # s) = ((c \<noteq> CHR ''<'' \<or> d \<noteq> CHR ''?'') \<and> pi_free (d # s))"

text \<open>The paths selected at and below a directory with relative parts \<^verbatim>\<open>parent\<close>, and
  those strictly below the entries of the root.\<close>

definition below :: "string \<Rightarrow> string list \<Rightarrow> entry list \<Rightarrow> path list" where
  "below pat parent entries = concat (map (select_from pat) (iterate_directories parent entries))"

definition deeper :: "string \<Rightarrow> entry list \<Rightarrow> path list" where
  "deeper pat entries =
    concat (map (\<lambda>e. case e of Dir n sub \<Rightarrow> below pat [n] sub | File n b \<Rightarrow> []) entries)"

text \<open>Three behaviours of the extraction, for the examples: every blob is rejected as no
  ZIP file; every blob holds a member with a compression method that \<^verbatim>\<open>zipfile\<close> does not
  implement; the extraction succeeds and leaves the given entries.\<close>

definition reject_all :: "bytes \<Rightarrow> exn + entry list" where
  "reject_all blob = Inl BadZipFile"

definition unsupported_method :: "bytes \<Rightarrow> exn + entry list" where
  "unsupported_method blob = Inl NotImplementedError"

definition unzip_to :: "entry list \<Rightarrow> bytes \<Rightarrow> exn + entry list" where
  "unzip_to course_root blob = Inr course_root"

text \<open>A name without a separator of either flavour that is a proper name of a directory
  entry.\<close>

definition clean_name :: "string \<Rightarrow> bool" where
  "clean_name n =
    (n \<noteq> [] \<and> n \<noteq> ''.'' \<and> n \<noteq> ''..'' \<and> CHR ''/'' \<notin> set n \<and> CHR 0x5C \<notin> set n)"

section \<open>Well-formed XML\<close>

text \<open>
  A part of the grammar of XML 1.0, on the code points 0 to 255: every text that the
  predicate \<^verbatim>\<open>xml_element\<close> holds of is a well-formed element. \<^verbatim>\<open>xml_char\<close> is production 2
  (Char); names are the names of ASCII letters, digits, \<^verbatim>\<open>_\<close>, \<^verbatim>\<open>:\<close>, \<^verbatim>\<open>-\<close> and \<^verbatim>\<open>.\<close>
  (productions 4, 4a and 5).
\<close>

definition xml_char :: "char \<Rightarrow> bool" where
  "xml_char c = (let n = (of_char c :: nat) in n = 9 \<or> n = 10 \<or> n = 13 \<or> 32 \<le> n)"

definition name_start_char :: "char \<Rightarrow> bool" where
  "name_start_char c = (let n = (of_char c :: nat) in
     (65 \<le> n \<and> n \<le> 90) \<or> (97 \<le> n \<and> n \<le> 122) \<or> n = 95 \<or> n = 58)"

definition name_char :: "char \<Rightarrow> bool" where
  "name_char c = (let n = (of_char c :: nat) in
     name_start_char c \<or> (48 \<le> n \<and> n \<le> 57) \<or> n = 45 \<or> n = 46)"

definition is_name :: "string \<Rightarrow> bool" where
  "is_name s = (s \<noteq> [] \<and> name_start_char (hd s) \<and> list_all name_char s)"

text \<open>The references (production 67) to the five predefined entities and to the
  characters tab, line feed and carriage return.\<close>

definition reference :: "string \<Rightarrow> bool" where
  "reference r = (r \<in> set [''&amp;'', ''&lt;'', ''&gt;'', ''&quot;'', ''&apos;'',
                            ''&#09;'', ''&#10;'', ''&#13;''])"

text \<open>The text between the double quotes of an attribute value (production 10), and
  character data with references between the tags (productions 14 and 43; no \<^verbatim>\<open>>\<close>
  is written raw, so that \<^verbatim>\<open>]]>\<close> cannot occur).\<close>

inductive att_value :: "string \<Rightarrow> bool" where
  att_nil: "att_value []"
| att_char: "xml_char c \<Longrightarrow> c \<noteq> CHR ''<'' \<Longrightarrow> c \<noteq> CHR ''&'' \<Longrightarrow> c \<noteq> CHR 0x22 \<Longrightarrow> att_value s
    \<Longrightarrow> att_value (c # s)"
| att_ref: "reference r \<Longrightarrow> att_value s \<Longrightarrow> att_value (r @ s)"

inductive char_data :: "string \<Rightarrow> bool" where
  data_nil: "char_data []"
| data_char: "xml_char c \<Longrightarrow> c \<noteq> CHR ''<'' \<Longrightarrow> c \<noteq> CHR ''&'' \<Longrightarrow> c \<noteq> CHR ''>'' \<Longrightarrow> char_data s
    \<Longrightarrow> char_data (c # s)"
| data_ref: "reference r \<Longrightarrow> char_data s \<Longrightarrow> char_data (r @ s)"

text \<open>An attribute after white space (production 41), an element with distinct
  attribute names (productions 39, 40, 42 and 44) and its content (production 43).\<close>

definition attribute :: "string \<times> string \<Rightarrow> string" where
  \<open>attribute a = '' '' @ fst a @ ''="'' @ snd a @ ''"''\<close>

inductive xml_element :: "string \<Rightarrow> bool" and xml_content :: "string \<Rightarrow> bool" where
  empty_element:
    "is_name n \<Longrightarrow> distinct (map fst atts)
     \<Longrightarrow> list_all (\<lambda>a. is_name (fst a) \<and> att_value (snd a)) atts
     \<Longrightarrow> xml_element (''<'' @ n @ concat (map attribute atts) @ '' />'')"
| full_element:
    "is_name n \<Longrightarrow> distinct (map fst atts)
     \<Longrightarrow> list_all (\<lambda>a. is_name (fst a) \<and> att_value (snd a)) atts
     \<Longrightarrow> xml_content c
     \<Longrightarrow> xml_element (''<'' @ n @ concat (map attribute atts) @ ''>'' @ c @ ''</'' @ n @ ''>'')"
| content_nil: "xml_content []"
| content_text: "char_data d \<Longrightarrow> xml_content c \<Longrightarrow> xml_content (d @ c)"
| content_element: "xml_element e \<Longrightarrow> xml_content c \<Longrightarrow> xml_content (e @ c)"

text \<open>A document (production 1): the declaration of the manifest, a line feed and the
  root element; and the bytes of such a document in UTF-8.\<close>

definition well_formed :: "string \<Rightarrow> bool" where
  \<open>well_formed doc =
    (\<exists>root. xml_element root
       \<and> doc = ''<?xml version="1.0" encoding="UTF-8"?>'' @ [CHR 0x0A] @ root)\<close>

definition well_formed_utf8 :: "bytes \<Rightarrow> bool" where
  "well_formed_utf8 bs = (\<exists>doc. well_formed doc \<and> bs = encode_utf8 doc)"

section \<open>Facts about strings\<close>

lemma replace_Nil [simp]: "replace old new [] = []"
  by (simp add: replace_def)

lemma replace_Cons [simp]:
  "replace old new (c # s) = (if c = old then new else [c]) @ replace old new s"
  by (simp add: replace_def)

lemma replace_append: "replace old new (s @ t) = replace old new s @ replace old new t"
  by (simp add: replace_def)

lemma replace_char_map: "replace old [new] s = map (\<lambda>c. if c = old then new else c) s"
  by (induction s) auto

lemma dropWhile_all: "\<forall>c\<in>set l. P c \<Longrightarrow> dropWhile P (l @ s) = dropWhile P s"
  by (induction l) auto

lemma strip_core:
  assumes l: "\<forall>c\<in>set l. isspace c" and r: "\<forall>c\<in>set r. isspace c"
    and core: "core = [] \<or> (\<not> isspace (hd core) \<and> \<not> isspace (last core))"
  shows "strip (l @ core @ r) = core"
proof (cases "core = []")
  case True
  have d: "dropWhile isspace (l @ r) = []"
    using l r by auto
  have "strip (l @ r) = []" unfolding strip_def d by simp
  then show ?thesis using True by simp
next
  case False
  then have h: "\<not> isspace (hd core)" and t: "\<not> isspace (last core)" using core by auto
  have a: "dropWhile isspace (l @ core @ r) = core @ r"
    using l h False by (cases core) (auto simp: dropWhile_all)
  have tr: "\<not> isspace (hd (rev core))" using t False by (simp add: hd_rev)
  have rr: "\<forall>c\<in>set (rev r). isspace c" using r by simp
  have "dropWhile isspace (rev r @ rev core) = rev core"
    using tr False rr by (cases "rev core") (auto simp: dropWhile_all)
  then show ?thesis using a by (simp add: strip_def)
qed

lemma replace_absent: "old \<notin> set s \<Longrightarrow> replace old new s = s"
  by (induction s) auto

lemma replace_removes: "old \<notin> set new \<Longrightarrow> old \<notin> set (replace old new s)"
  by (induction s) auto

lemma endswith_iff: "endswith s suf = (\<exists>pre. s = pre @ suf)"
proof
  assume "endswith s suf"
  then have "s = take (length s - length suf) s @ suf"
    by (metis append_take_drop_id endswith_def)
  then show "\<exists>pre. s = pre @ suf" ..
next
  assume "\<exists>pre. s = pre @ suf"
  then show "endswith s suf" by (auto simp: endswith_def)
qed

lemma replace_keeps_absent:
  "c \<notin> set s \<Longrightarrow> c \<notin> set new \<Longrightarrow> c \<notin> set (replace old new s)"
  by (induction s) auto

lemma replace_image:
  "c \<in> set s \<Longrightarrow> (if c = old then set new \<subseteq> set (replace old new s)
                     else c \<in> set (replace old new s))"
  by (induction s) auto

lemma replace_slash_eq:
  assumes "CHR ''/'' \<notin> set m" and "CHR 0x5C \<notin> set m"
  shows "(replace (CHR 0x5C) ''/'' n = m) = (n = m)"
proof (cases "CHR 0x5C \<in> set n")
  case True
  from replace_image [OF True, of "CHR 0x5C" "''/''"]
  have "CHR ''/'' \<in> set (replace (CHR 0x5C) ''/'' n)" by simp
  then show ?thesis using assms True by auto
next
  case False
  then show ?thesis by (simp add: replace_absent)
qed

lemma sort_eq_Nil [simp]: "(sort xs = []) = (xs = [])"
  by (metis length_0_conv length_sort)

lemma filter_distinct_key:
  "distinct (map f xs) \<Longrightarrow> x \<in> set xs \<Longrightarrow> filter (\<lambda>y. f y = f x) xs = [x]"
proof (induction xs)
  case Nil
  then show ?case by simp
next
  case (Cons a xs)
  show ?case
  proof (cases "a = x")
    case True
    have "f x \<notin> f ` set xs" using Cons.prems(1) True by simp
    then have "\<forall>y\<in>set xs. f y \<noteq> f x" by (metis imageI)
    then have "filter (\<lambda>y. f y = f x) xs = []" by (simp add: filter_empty_conv)
    then show ?thesis using True by simp
  next
    case False
    then have "x \<in> set xs" using Cons.prems(2) by simp
    moreover have "f a \<notin> f ` set xs" using Cons.prems(1) by simp
    then have "f a \<noteq> f x" using \<open>x \<in> set xs\<close> by (metis imageI)
    ultimately show ?thesis using Cons by simp
  qed
qed

section \<open>Facts about the manifest tree\<close>

lemma findall_file_elements:
  "concat (map (findall []) (filter (\<lambda>c. tag c = ''file'') (map file_element fs)))
    = map file_element fs"
  by (induction fs) (simp_all add: file_element_def)

lemma file_hrefs_manifest_tree:
  "file_hrefs (manifest_tree title identifier launch_file fs)
    = map (\<lambda>f. Some (replace (CHR 0x5C) ''/'' f)) (sort fs)"
  by (simp add: file_hrefs_def manifest_tree_def findall_file_elements)
    (simp add: file_element_def get_def)

section \<open>The serialized manifest in closed form\<close>

lemma registered_eq: "registered = Inr registry"
  by (simp add: registered_def register_namespace_def reserved_prefix_def namespace_map0_def
      registry_def)

lemma names_of_manifest_tree:
  "names_of (manifest_tree title identifier launch_file fs)
    = fixed_names @ concat (map (\<lambda>f. [''file'', ''href'']) (sort fs))"
proof -
  have "concat (map names_of (map file_element xs)) = concat (map (\<lambda>f. [''file'', ''href'']) xs)"
    for xs
    by (induction xs) (simp_all add: file_element_def)
  then show ?thesis by (simp add: manifest_tree_def fixed_names_def)
qed

lemma scan_names_append:
  "scan_names m tb (xs @ ys)
    = (case scan_names m tb xs of Inl e \<Rightarrow> Inl e | Inr tb' \<Rightarrow> scan_names m tb' ys)"
  by (induction xs arbitrary: tb) (auto split: sum.splits)

lemma scan_fixed_names:
  "scan_names registry ([], []) fixed_names = Inr (fixed_qnames, used_namespaces)"
  by (simp add: fixed_names_def add_qname_def rsplit1_def registry_def fixed_qnames_def
      used_namespaces_def)

lemma scan_known:
  "map_of (fst tb) ''file'' \<noteq> None \<Longrightarrow> map_of (fst tb) ''href'' \<noteq> None \<Longrightarrow>
   scan_names m tb (concat (map (\<lambda>f. [''file'', ''href'']) xs)) = Inr tb"
  by (induction xs) auto

lemma scan_files:
  "scan_names registry (fixed_qnames, used_namespaces)
      (concat (map (\<lambda>f. [''file'', ''href'']) xs))
    = Inr (if xs = [] then fixed_qnames else fixed_qnames @ [(''file'', ''file'')],
           used_namespaces)"
proof (cases xs)
  case Nil
  then show ?thesis by simp
next
  case (Cons x xs')
  have one: "scan_names registry (fixed_qnames, used_namespaces) [''file'', ''href'']
      = Inr (fixed_qnames @ [(''file'', ''file'')], used_namespaces)"
    by (simp add: add_qname_def fixed_qnames_def)
  have rest: "scan_names registry (fixed_qnames @ [(''file'', ''file'')], used_namespaces)
      (concat (map (\<lambda>f. [''file'', ''href'']) xs'))
      = Inr (fixed_qnames @ [(''file'', ''file'')], used_namespaces)"
    by (rule scan_known) (simp_all add: fixed_qnames_def)
  have "concat (map (\<lambda>f. [''file'', ''href'']) xs)
      = [''file'', ''href''] @ concat (map (\<lambda>f. [''file'', ''href'']) xs')"
    using Cons by simp
  then show ?thesis using Cons one rest by (simp only: scan_names_append) simp
qed

lemma lookups:
  assumes "qn = fixed_qnames \<or> qn = fixed_qnames @ [(''file'', ''file'')]"
  shows "map_of qn ''manifest'' = Some ''manifest''"
    and "map_of qn ''identifier'' = Some ''identifier''"
    and "map_of qn ''version'' = Some ''version''"
    and "map_of qn ''metadata'' = Some ''metadata''"
    and "map_of qn ''schema'' = Some ''schema''"
    and "map_of qn ''schemaversion'' = Some ''schemaversion''"
    and "map_of qn ''organizations'' = Some ''organizations''"
    and "map_of qn ''default'' = Some ''default''"
    and "map_of qn ''organization'' = Some ''organization''"
    and "map_of qn ''title'' = Some ''title''"
    and "map_of qn ''item'' = Some ''item''"
    and "map_of qn ''identifierref'' = Some ''identifierref''"
    and "map_of qn ''resources'' = Some ''resources''"
    and "map_of qn ''resource'' = Some ''resource''"
    and "map_of qn ''type'' = Some ''type''"
    and "map_of qn ''{http://www.adlnet.org/xsd/adlcp_v1p3}scormtype'' = Some ''adlcp:scormtype''"
    and "map_of qn ''href'' = Some ''href''"
  using assms by (auto simp: fixed_qnames_def)

lemma write_xmlns_Nil: "write_xmlns [] = []"
  by (simp add: write_xmlns_def)

lemma write_xmlns_used:
  \<open>write_xmlns used_namespaces = '' xmlns:adlcp="http://www.adlnet.org/xsd/adlcp_v1p3"''\<close>
  by (simp add: write_xmlns_def used_namespaces_def escape_attrib_def)

lemma serialize_file:
  "map_of qn ''file'' = Some ''file'' \<Longrightarrow> map_of qn ''href'' = Some ''href'' \<Longrightarrow>
   serialize_xml qn [] (file_element f) = Inr (file_text f)"
  by (simp add: file_element_def file_text_def write_item_def truthy_def write_xmlns_Nil)

lemma sequence_files:
  "map_of qn ''file'' = Some ''file'' \<Longrightarrow> map_of qn ''href'' = Some ''href'' \<Longrightarrow>
   sequence (map (serialize_xml qn [] \<circ> file_element) xs) = Inr (map file_text xs)"
  by (induction xs) (simp_all add: serialize_file)

lemma serialize_manifest_tree:
  assumes qn: "qn = fixed_qnames \<or> qn = fixed_qnames @ [(''file'', ''file'')]"
    and fs: "fs \<noteq> [] \<Longrightarrow> qn = fixed_qnames @ [(''file'', ''file'')]"
  shows "serialize_xml qn used_namespaces (manifest_tree title identifier launch_file fs)
    = Inr (manifest_text title identifier launch_file fs)"
proof (cases "fs = []")
  case True
  then show ?thesis
    by (simp add: manifest_tree_def manifest_text_def title_text_def lookups [OF qn]
        write_item_def truthy_def write_xmlns_Nil write_xmlns_used escape_attrib_def
        escape_cdata_def)
next
  case False
  then have f: "map_of qn ''file'' = Some ''file''" using fs by (simp add: fixed_qnames_def)
  have h: "map_of qn ''href'' = Some ''href''" by (rule lookups [OF qn])
  show ?thesis using False
    by (simp add: manifest_tree_def manifest_text_def title_text_def lookups [OF qn]
        write_item_def truthy_def write_xmlns_Nil write_xmlns_used sequence_files [OF f h]
        escape_attrib_def escape_cdata_def)
qed

lemma tostring_manifest_tree:
  "tostring registry (manifest_tree title identifier launch_file fs)
    = Inr (encode_utf8 (manifest_text title identifier launch_file fs))"
proof -
  let ?qn = "if fs = [] then fixed_qnames else fixed_qnames @ [(''file'', ''file'')]"
  have "scan_names registry ([], []) (names_of (manifest_tree title identifier launch_file fs))
      = Inr (if sort fs = [] then fixed_qnames else fixed_qnames @ [(''file'', ''file'')],
             used_namespaces)"
    by (simp only: names_of_manifest_tree scan_names_append scan_fixed_names scan_files
        sum.case)
  then have scan:
    "scan_names registry ([], []) (names_of (manifest_tree title identifier launch_file fs))
      = Inr (?qn, used_namespaces)"
    by simp
  have "serialize_xml ?qn used_namespaces (manifest_tree title identifier launch_file fs)
      = Inr (manifest_text title identifier launch_file fs)"
    by (rule serialize_manifest_tree) simp_all
  then show ?thesis
    unfolding tostring_def scan by simp
qed

lemma generate_manifest_eq:
  \<open>generate_manifest title identifier launch_file fs
    = Inr (''<?xml version="1.0" encoding="UTF-8"?>'' @ [CHR 0x0A]
           @ encode_utf8 (manifest_text title identifier launch_file fs))\<close>
  by (simp add: generate_manifest_def registered_eq tostring_manifest_tree)

section \<open>No processing instruction in the serialized tree\<close>

lemma pi_free_append: "pi_free a \<Longrightarrow> pi_free b \<Longrightarrow> pi_free (a @ b)"
proof (induction a rule: pi_free.induct)
  case 1
  then show ?case by simp
next
  case (2 c)
  then show ?case by (cases b) auto
next
  case (3 c d s)
  then show ?case by simp
qed

lemma pi_free_no_lt: "CHR ''<'' \<notin> set s \<Longrightarrow> pi_free s"
  by (induction s rule: pi_free.induct) auto

lemma pi_free_concat: "(\<And>x. x \<in> set xs \<Longrightarrow> pi_free x) \<Longrightarrow> pi_free (concat xs)"
  by (induction xs) (simp_all add: pi_free_append)

lemma pi_free_occurrences: "pi_free s \<Longrightarrow> occurrences ''<?'' s = 0"
  by (induction s rule: pi_free.induct) auto

lemma encode_utf8_append: "encode_utf8 (a @ b) = encode_utf8 a @ encode_utf8 b"
  by (simp add: encode_utf8_def)

lemma utf8_char_ascii: "(of_char c :: nat) < 128 \<Longrightarrow> utf8_char c = [c]"
  by (simp add: utf8_char_def)

lemma encode_utf8_ascii: "\<forall>c\<in>set s. (of_char c :: nat) < 128 \<Longrightarrow> encode_utf8 s = s"
  by (induction s) (simp_all add: encode_utf8_def utf8_char_ascii)

lemma of_char_of_small: "n < 256 \<Longrightarrow> (of_char (char_of n) :: nat) = n"
  by (simp only: of_char_of mod_less)

lemma utf8_char_bytes:
  assumes "x \<in> set (utf8_char c)"
  shows "x = c \<or> 128 \<le> (of_char x :: nat)"
proof (cases "(of_char c :: nat) < 128")
  case True
  then show ?thesis using assms by (simp add: utf8_char_ascii)
next
  case False
  define n where "n = (of_char c :: nat)"
  have n: "n < 256" unfolding n_def by simp
  have d: "n div 64 < 4" using n by (simp add: less_mult_imp_div_less)
  have m: "n mod 64 < 64" by simp
  have a: "(of_char (char_of (192 + n div 64)) :: nat) = 192 + n div 64"
    by (rule of_char_of_small) (use d in linarith)
  have b: "(of_char (char_of (128 + n mod 64)) :: nat) = 128 + n mod 64"
    by (rule of_char_of_small) (use m in linarith)
  have "utf8_char c = [char_of (192 + n div 64), char_of (128 + n mod 64)]"
    using False unfolding utf8_char_def n_def Let_def by (simp only: if_False)
  then have "x = char_of (192 + n div 64) \<or> x = char_of (128 + n mod 64)"
    using assms by simp
  then show ?thesis using a b by auto
qed

lemma encode_utf8_no_lt:
  assumes "CHR ''<'' \<notin> set s"
  shows "CHR ''<'' \<notin> set (encode_utf8 s)"
proof
  assume "CHR ''<'' \<in> set (encode_utf8 s)"
  then obtain c where c: "c \<in> set s" "CHR ''<'' \<in> set (utf8_char c)"
    by (auto simp: encode_utf8_def)
  from utf8_char_bytes [OF c(2)] have "CHR ''<'' = c" by simp
  then show False using c(1) assms by simp
qed

lemma escape_cdata_no_lt: "CHR ''<'' \<notin> set (escape_cdata s)"
  by (simp add: escape_cdata_def replace_keeps_absent replace_removes)

lemma escape_attrib_no_lt: "CHR ''<'' \<notin> set (escape_attrib s)"
  by (simp add: escape_attrib_def replace_keeps_absent replace_removes)

lemma pi_free_title: "pi_free (encode_utf8 (title_text title))"
proof (cases "title = []")
  case True
  then show ?thesis by (simp add: title_text_def encode_utf8_def utf8_char_def)
next
  case False
  have "pi_free (encode_utf8 (escape_cdata title))"
    by (simp add: pi_free_no_lt encode_utf8_no_lt escape_cdata_no_lt)
  moreover have "pi_free (encode_utf8 ''<title>'')" "pi_free (encode_utf8 ''</title>'')"
    by (simp_all add: encode_utf8_def utf8_char_def)
  ultimately show ?thesis using False
    by (simp only: title_text_def if_False encode_utf8_append pi_free_append)
qed

lemma pi_free_file: "pi_free (encode_utf8 (file_text f))"
proof -
  have "pi_free (encode_utf8 (escape_attrib (replace (CHR 0x5C) ''/'' f)))"
    by (simp add: pi_free_no_lt encode_utf8_no_lt escape_attrib_no_lt)
  moreover have \<open>pi_free (encode_utf8 ''<file href="'')\<close> \<open>pi_free (encode_utf8 ''" />'')\<close>
    by (simp_all add: encode_utf8_def utf8_char_def)
  ultimately show ?thesis
    by (simp only: file_text_def encode_utf8_append pi_free_append)
qed

lemma encode_utf8_concat: "encode_utf8 (concat xs) = concat (map encode_utf8 xs)"
  by (induction xs) (simp_all add: encode_utf8_append, simp add: encode_utf8_def)

lemma pi_free_files: "pi_free (encode_utf8 (concat (map file_text xs)))"
  by (simp only: encode_utf8_concat) (rule pi_free_concat, auto simp: pi_free_file)

lemma pi_free_manifest_text:
  "pi_free (encode_utf8 (manifest_text title identifier launch_file fs))"
proof -
  have a: "pi_free (encode_utf8 (escape_attrib s))" for s
    by (simp add: pi_free_no_lt encode_utf8_no_lt escape_attrib_no_lt)
  have tail: "pi_free (encode_utf8
      (if fs = [] then '' />'' else ''>'' @ concat (map file_text (sort fs)) @ ''</resource>''))"
  proof (cases "fs = []")
    case True
    then show ?thesis by (simp add: encode_utf8_def utf8_char_def)
  next
    case False
    have "pi_free (encode_utf8 ''>'')" "pi_free (encode_utf8 ''</resource>'')"
      by (simp_all add: encode_utf8_def utf8_char_def)
    then show ?thesis using False
      by (simp only: if_False encode_utf8_append pi_free_append pi_free_files)
  qed
  show ?thesis
    unfolding manifest_text_def encode_utf8_append
    by (intro pi_free_append;
        (rule a | rule pi_free_title | rule tail | simp add: encode_utf8_def utf8_char_def))
qed

section \<open>Facts about well-formed texts\<close>

lemma att_value_append: "att_value a \<Longrightarrow> att_value b \<Longrightarrow> att_value (a @ b)"
proof (induction rule: att_value.induct)
  case att_nil
  then show ?case by simp
next
  case (att_char c s)
  then show ?case by (simp add: att_value.att_char)
next
  case (att_ref r s)
  then show ?case using att_value.att_ref [of r "s @ b"] by simp
qed

lemma char_data_append: "char_data a \<Longrightarrow> char_data b \<Longrightarrow> char_data (a @ b)"
proof (induction rule: char_data.induct)
  case data_nil
  then show ?case by simp
next
  case (data_char c s)
  then show ?case by (simp add: char_data.data_char)
next
  case (data_ref r s)
  then show ?case using char_data.data_ref [of r "s @ b"] by simp
qed

lemma att_value_reference: "reference r \<Longrightarrow> att_value r"
  using att_ref [of r "[]"] att_nil by simp

lemma char_data_reference: "reference r \<Longrightarrow> char_data r"
  using data_ref [of r "[]"] data_nil by simp

lemma escape_attrib_append: "escape_attrib (a @ b) = escape_attrib a @ escape_attrib b"
  by (simp add: escape_attrib_def replace_append)

lemma escape_cdata_append: "escape_cdata (a @ b) = escape_cdata a @ escape_cdata b"
  by (simp add: escape_cdata_def replace_append)

lemma escape_attrib_char:
  "escape_attrib [c] =
    (if c = CHR ''&'' then ''&amp;'' else if c = CHR ''<'' then ''&lt;''
     else if c = CHR ''>'' then ''&gt;'' else if c = CHR 0x22 then ''&quot;''
     else if c = CHR 0x0D then ''&#13;'' else if c = CHR 0x0A then ''&#10;''
     else if c = CHR 0x09 then ''&#09;'' else [c])"
  by (simp add: escape_attrib_def)

lemma escape_cdata_char:
  "escape_cdata [c] =
    (if c = CHR ''&'' then ''&amp;'' else if c = CHR ''<'' then ''&lt;''
     else if c = CHR ''>'' then ''&gt;'' else [c])"
  by (simp add: escape_cdata_def)

lemma att_value_escape_char:
  assumes "xml_char c"
  shows "att_value (escape_attrib [c])"
proof (cases "c = CHR ''&'' \<or> c = CHR ''<'' \<or> c = CHR ''>'' \<or> c = CHR 0x22
    \<or> c = CHR 0x0D \<or> c = CHR 0x0A \<or> c = CHR 0x09")
  case True
  then have "reference (escape_attrib [c])"
    unfolding escape_attrib_char by (auto simp: reference_def)
  then show ?thesis by (rule att_value_reference)
next
  case False
  then have "escape_attrib [c] = [c]" unfolding escape_attrib_char by simp
  then show ?thesis using False assms by (simp add: att_char att_nil)
qed

lemma char_data_escape_char:
  assumes "xml_char c"
  shows "char_data (escape_cdata [c])"
proof (cases "c = CHR ''&'' \<or> c = CHR ''<'' \<or> c = CHR ''>''")
  case True
  then have "reference (escape_cdata [c])"
    unfolding escape_cdata_char by (auto simp: reference_def)
  then show ?thesis by (rule char_data_reference)
next
  case False
  then have "escape_cdata [c] = [c]" unfolding escape_cdata_char by simp
  then show ?thesis using False assms by (simp add: data_char data_nil)
qed

lemma att_value_escape: "list_all xml_char s \<Longrightarrow> att_value (escape_attrib s)"
proof (induction s)
  case Nil
  then show ?case by (simp add: escape_attrib_def att_nil)
next
  case (Cons c s)
  have "escape_attrib (c # s) = escape_attrib [c] @ escape_attrib s"
    using escape_attrib_append [of "[c]" s] by simp
  then show ?case using Cons by (simp add: att_value_append att_value_escape_char)
qed

lemma char_data_escape: "list_all xml_char s \<Longrightarrow> char_data (escape_cdata s)"
proof (induction s)
  case Nil
  then show ?case by (simp add: escape_cdata_def data_nil)
next
  case (Cons c s)
  have "escape_cdata (c # s) = escape_cdata [c] @ escape_cdata s"
    using escape_cdata_append [of "[c]" s] by simp
  then show ?case using Cons by (simp add: char_data_append char_data_escape_char)
qed

lemma att_value_plain:
  "list_all (\<lambda>c. xml_char c \<and> c \<noteq> CHR ''<'' \<and> c \<noteq> CHR ''&'' \<and> c \<noteq> CHR 0x22) s \<Longrightarrow> att_value s"
  by (induction s) (auto intro: att_char att_nil)

lemma char_data_plain:
  "list_all (\<lambda>c. xml_char c \<and> c \<noteq> CHR ''<'' \<and> c \<noteq> CHR ''&'' \<and> c \<noteq> CHR ''>'') s \<Longrightarrow> char_data s"
  by (induction s) (auto intro: data_char data_nil)

lemma content_append: "xml_content a \<Longrightarrow> xml_content b \<Longrightarrow> xml_content (a @ b)"
proof (induction a rule: xml_element_xml_content.inducts(2) [where ?P1.0 = "\<lambda>_. True"])
  case content_nil
  then show ?case by simp
next
  case (content_text d c)
  then show ?case using xml_element_xml_content.content_text [of d "c @ b"] by simp
next
  case (content_element e c)
  then show ?case using xml_element_xml_content.content_element [of e "c @ b"] by simp
qed simp_all

lemma content_of_element: "xml_element e \<Longrightarrow> xml_content e"
  using content_element [of e "[]"] content_nil by simp

lemma content_of_text: "char_data d \<Longrightarrow> xml_content d"
  using content_text [of d "[]"] content_nil by simp

lemma content_concat: "(\<And>x. x \<in> set xs \<Longrightarrow> xml_element x) \<Longrightarrow> xml_content (concat xs)"
  by (induction xs) (auto intro: content_nil content_element)


lemma replace_list_all: "list_all P s \<Longrightarrow> list_all P r \<Longrightarrow> list_all P (replace c r s)"
  by (induction s) (simp_all add: replace_def)

lemma name_char_xml_char: "name_char c \<Longrightarrow> xml_char c"
  by (auto simp: name_char_def name_start_char_def xml_char_def Let_def)

lemma is_name_xml_chars: "is_name n \<Longrightarrow> list_all xml_char n"
  by (simp add: is_name_def list_all_iff name_char_xml_char)

lemma reference_xml_chars: "reference r \<Longrightarrow> list_all xml_char r"
  by (auto simp: reference_def xml_char_def)

lemma att_value_xml_chars: "att_value s \<Longrightarrow> list_all xml_char s"
  by (induction rule: att_value.induct) (simp_all add: reference_xml_chars)

lemma char_data_xml_chars: "char_data s \<Longrightarrow> list_all xml_char s"
  by (induction rule: char_data.induct) (simp_all add: reference_xml_chars)

lemma xml_char_marks:
  "xml_char CHR ''<''" "xml_char CHR ''>''" "xml_char CHR ''/''" "xml_char CHR '' ''"
  "xml_char CHR ''=''" "xml_char (CHR 0x22)"
  by (simp_all add: xml_char_def)

lemma attribute_xml_chars:
  "is_name (fst a) \<Longrightarrow> att_value (snd a) \<Longrightarrow> list_all xml_char (attribute a)"
  by (simp add: attribute_def is_name_xml_chars att_value_xml_chars xml_char_marks)

lemma attributes_xml_chars:
  "list_all (\<lambda>a. is_name (fst a) \<and> att_value (snd a)) atts
    \<Longrightarrow> list_all xml_char (concat (map attribute atts))"
  by (induction atts) (simp_all add: attribute_xml_chars)

lemma element_xml_chars: "xml_element s \<Longrightarrow> list_all xml_char s"
proof (induction s rule: xml_element_xml_content.inducts(1)
    [where ?P2.0 = "\<lambda>s. list_all xml_char s"])
  case (empty_element n atts)
  then show ?case by (simp add: is_name_xml_chars attributes_xml_chars xml_char_marks)
next
  case (full_element n atts c)
  then show ?case by (simp add: is_name_xml_chars attributes_xml_chars xml_char_marks)
next
  case content_nil
  then show ?case by simp
next
  case (content_text d c)
  then show ?case by (simp add: char_data_xml_chars)
next
  case (content_element e c)
  then show ?case by simp
qed

lemma well_formed_xml_chars: "well_formed doc \<Longrightarrow> list_all xml_char doc"
  by (auto simp: well_formed_def element_xml_chars xml_char_def)

lemma encode_utf8_ascii_member:
  assumes "x \<in> set (encode_utf8 s)" "(of_char x :: nat) < 128"
  shows "x \<in> set s"
proof -
  from assms(1) obtain c where c: "c \<in> set s" "x \<in> set (utf8_char c)"
    by (auto simp: encode_utf8_def)
  from utf8_char_bytes [OF c(2)] assms(2) have "x = c" by auto
  then show ?thesis using c(1) by simp
qed

lemma well_formed_utf8_bytes:
  assumes "well_formed_utf8 bs" "x \<in> set bs" "(of_char x :: nat) < 128"
  shows "xml_char x"
proof -
  from assms(1) obtain doc where d: "well_formed doc" "bs = encode_utf8 doc"
    by (auto simp: well_formed_utf8_def)
  then have "x \<in> set doc" using assms(2,3) encode_utf8_ascii_member by simp
  then show ?thesis using well_formed_xml_chars [OF d(1)] by (simp add: list_all_iff)
qed

lemma element_empty:
  \<open>is_name n \<Longrightarrow> distinct (map fst atts)
    \<Longrightarrow> list_all (\<lambda>a. is_name (fst a) \<and> att_value (snd a)) atts
    \<Longrightarrow> s = ''<'' @ n @ concat (map attribute atts) @ '' />''
    \<Longrightarrow> xml_element s\<close>
  using empty_element by simp

lemma element_full:
  \<open>is_name n \<Longrightarrow> distinct (map fst atts)
    \<Longrightarrow> list_all (\<lambda>a. is_name (fst a) \<and> att_value (snd a)) atts
    \<Longrightarrow> xml_content c
    \<Longrightarrow> s = ''<'' @ n @ concat (map attribute atts) @ ''>'' @ c @ ''</'' @ n @ ''>''
    \<Longrightarrow> xml_element s\<close>
  using full_element by simp

lemma names:
  "is_name ''manifest''" "is_name ''metadata''" "is_name ''schema''" "is_name ''schemaversion''"
  "is_name ''organizations''" "is_name ''organization''" "is_name ''title''" "is_name ''item''"
  "is_name ''resources''" "is_name ''resource''" "is_name ''file''"
  "is_name ''xmlns:adlcp''" "is_name ''identifier''" "is_name ''version''" "is_name ''default''"
  "is_name ''identifierref''" "is_name ''type''" "is_name ''adlcp:scormtype''" "is_name ''href''"
  by (simp_all add: is_name_def name_char_def name_start_char_def)

lemma plain_values:
  "att_value ''http://www.adlnet.org/xsd/adlcp_v1p3''" "att_value ''1''" "att_value ''ORG-1''"
  "att_value ''ITEM-1''" "att_value ''RES-1''" "att_value ''webcontent''" "att_value ''sco''"
  by (rule att_value_plain, simp add: xml_char_def)+

lemma plain_texts: "char_data ''ADL SCORM''" "char_data ''1.2''"
  by (rule char_data_plain, simp add: xml_char_def)+

lemma file_text_element:
  assumes "list_all xml_char f"
  shows "xml_element (file_text f)"
proof -
  have "list_all xml_char (replace (CHR 0x5C) ''/'' f)"
    using assms by (rule replace_list_all) (simp add: xml_char_def)
  then have "att_value (escape_attrib (replace (CHR 0x5C) ''/'' f))" by (rule att_value_escape)
  then show ?thesis
    by (intro element_empty [where n = "''file''"
          and atts = "[(''href'', escape_attrib (replace (CHR 0x5C) ''/'' f))]"])
       (simp_all add: names file_text_def attribute_def)
qed

lemma title_text_element:
  assumes "list_all xml_char title"
  shows "xml_element (title_text title)"
proof (cases "title = []")
  case True
  then show ?thesis
    by (intro element_empty [where n = "''title''" and atts = "[]"])
       (simp_all add: names title_text_def)
next
  case False
  have "xml_content (escape_cdata title)"
    using assms by (simp add: content_of_text char_data_escape)
  then show ?thesis using False
    by (intro element_full [where n = "''title''" and atts = "[]"
          and c = "escape_cdata title"])
       (simp_all add: names title_text_def)
qed

lemma metadata_element:
  "xml_element ''<metadata><schema>ADL SCORM</schema><schemaversion>1.2</schemaversion></metadata>''"
proof -
  have a: "xml_element ''<schema>ADL SCORM</schema>''"
    by (intro element_full [where n = "''schema''" and atts = "[]" and c = "''ADL SCORM''"])
       (simp_all add: names content_of_text plain_texts)
  have b: "xml_element ''<schemaversion>1.2</schemaversion>''"
    by (intro element_full [where n = "''schemaversion''" and atts = "[]" and c = "''1.2''"])
       (simp_all add: names content_of_text plain_texts)
  have "xml_content (''<schema>ADL SCORM</schema>'' @ ''<schemaversion>1.2</schemaversion>'')"
    by (intro content_append content_of_element a b)
  then show ?thesis
    by (intro element_full [where n = "''metadata''" and atts = "[]"
          and c = "''<schema>ADL SCORM</schema>'' @ ''<schemaversion>1.2</schemaversion>''"])
       (simp_all add: names)
qed

lemma organizations_element:
  assumes "list_all xml_char title"
  shows \<open>xml_element (''<organizations default="ORG-1"><organization identifier="ORG-1">''
    @ title_text title
    @ ''<item identifier="ITEM-1" identifierref="RES-1">''
    @ title_text title
    @ ''</item></organization></organizations>'')\<close>
proof -
  let ?t = "title_text title"
  let ?item = \<open>''<item identifier="ITEM-1" identifierref="RES-1">'' @ ?t @ ''</item>''\<close>
  let ?org = \<open>''<organization identifier="ORG-1">'' @ ?t @ ?item @ ''</organization>''\<close>
  have t: "xml_content ?t" using assms by (simp add: content_of_element title_text_element)
  have item: "xml_element ?item"
    by (rule element_full [where n = "''item''"
          and atts = "[(''identifier'', ''ITEM-1''), (''identifierref'', ''RES-1'')]"
          and c = "?t", OF _ _ _ t])
       (simp_all add: names plain_values attribute_def)
  have c: "xml_content (?t @ ?item)"
    by (rule content_append [OF t content_of_element [OF item]])
  have org: "xml_element ?org"
    by (rule element_full [where n = "''organization''"
          and atts = "[(''identifier'', ''ORG-1'')]" and c = "?t @ ?item", OF _ _ _ c])
       (simp_all add: names plain_values attribute_def)
  show ?thesis
    by (rule element_full [where n = "''organizations''"
          and atts = "[(''default'', ''ORG-1'')]" and c = ?org,
          OF _ _ _ content_of_element [OF org]])
       (simp_all add: names plain_values attribute_def)
qed

lemma resources_element:
  assumes "list_all xml_char launch_file" "list_all (list_all xml_char) fs"
  shows \<open>xml_element
    (''<resources><resource identifier="RES-1" type="webcontent" adlcp:scormtype="sco" href="''
    @ escape_attrib launch_file @ ''"''
    @ (if fs = [] then '' />'' else ''>'' @ concat (map file_text (sort fs)) @ ''</resource>'')
    @ ''</resources>'')\<close>
proof -
  let ?atts = "[(''identifier'', ''RES-1''), (''type'', ''webcontent''),
    (''adlcp:scormtype'', ''sco''), (''href'', escape_attrib launch_file)]"
  let ?res = \<open>''<resource identifier="RES-1" type="webcontent" adlcp:scormtype="sco" href="''
    @ escape_attrib launch_file @ ''"''
    @ (if fs = [] then '' />'' else ''>'' @ concat (map file_text (sort fs)) @ ''</resource>'')\<close>
  have l: "att_value (escape_attrib launch_file)" using assms(1) by (rule att_value_escape)
  have files: "xml_content (concat (map file_text (sort fs)))"
  proof (rule content_concat)
    fix x assume "x \<in> set (map file_text (sort fs))"
    then obtain f where "f \<in> set fs" "x = file_text f" by auto
    then show "xml_element x" using assms(2) by (simp add: list_all_iff file_text_element)
  qed
  have res: "xml_element ?res"
  proof (cases "fs = []")
    case True
    then show ?thesis
      by (intro element_empty [where n = "''resource''" and atts = ?atts])
         (simp_all add: names plain_values attribute_def l)
  next
    case False
    then show ?thesis
      by (intro element_full [where n = "''resource''" and atts = ?atts
            and c = "concat (map file_text (sort fs))", OF _ _ _ files])
         (simp_all add: names plain_values attribute_def l)
  qed
  show ?thesis
    by (rule element_full [where n = "''resources''" and atts = "[]" and c = ?res,
          OF _ _ _ content_of_element [OF res]])
       (simp_all add: names)
qed

lemma manifest_text_element:
  assumes "list_all xml_char title" "list_all xml_char identifier"
    "list_all xml_char launch_file" "list_all (list_all xml_char) fs"
  shows "xml_element (manifest_text title identifier launch_file fs)"
proof -
  let ?m = "''<metadata><schema>ADL SCORM</schema><schemaversion>1.2</schemaversion></metadata>''"
  let ?o = \<open>''<organizations default="ORG-1"><organization identifier="ORG-1">''
    @ title_text title
    @ ''<item identifier="ITEM-1" identifierref="RES-1">''
    @ title_text title
    @ ''</item></organization></organizations>''\<close>
  let ?r = \<open>''<resources><resource identifier="RES-1" type="webcontent" adlcp:scormtype="sco" href="''
    @ escape_attrib launch_file @ ''"''
    @ (if fs = [] then '' />'' else ''>'' @ concat (map file_text (sort fs)) @ ''</resource>'')
    @ ''</resources>''\<close>
  have i: "att_value (escape_attrib identifier)" using assms(2) by (rule att_value_escape)
  have m: "xml_content ?m" by (rule content_of_element [OF metadata_element])
  have o: "xml_content ?o" by (rule content_of_element [OF organizations_element [OF assms(1)]])
  have r: "xml_content ?r" by (rule content_of_element [OF resources_element [OF assms(3,4)]])
  have c: "xml_content (?m @ ?o @ ?r)"
    by (rule content_append [OF m content_append [OF o r]])
  show ?thesis
    by (rule element_full [where n = "''manifest''"
          and atts = "[(''xmlns:adlcp'', ''http://www.adlnet.org/xsd/adlcp_v1p3''),
                       (''identifier'', escape_attrib identifier), (''version'', ''1'')]"
          and c = "?m @ ?o @ ?r", OF _ _ _ c])
       (simp_all add: names plain_values attribute_def i manifest_text_def)
qed

lemma manifest_well_formed:
  assumes "list_all xml_char title" "list_all xml_char identifier"
    "list_all xml_char launch_file" "list_all (list_all xml_char) fs"
  shows \<open>well_formed (''<?xml version="1.0" encoding="UTF-8"?>'' @ [CHR 0x0A]
    @ manifest_text title identifier launch_file fs)\<close>
  unfolding well_formed_def using manifest_text_element [OF assms] by blast

section \<open>Facts about the traversal of the staged tree\<close>

lemma fnmatch_literal: "CHR ''*'' \<notin> set ps \<Longrightarrow> fnmatch ps n = (n = ps)"
proof (induction ps arbitrary: n)
  case Nil
  then show ?case by simp
next
  case (Cons p ps)
  then show ?case by (cases n) auto
qed

lemma fnmatch_star: "fnmatch (CHR ''*'' # ps) n = (\<exists>k\<le>length n. fnmatch ps (drop k n))"
proof (induction n)
  case Nil
  then show ?case by (cases ps) auto
next
  case (Cons c cs)
  have "(\<exists>k\<le>length (c # cs). fnmatch ps (drop k (c # cs)))
      = (fnmatch ps (c # cs) \<or> (\<exists>k\<le>length cs. fnmatch ps (drop k cs)))"
  proof
    assume "\<exists>k\<le>length (c # cs). fnmatch ps (drop k (c # cs))"
    then obtain k where k: "k \<le> length (c # cs)" "fnmatch ps (drop k (c # cs))" by blast
    show "fnmatch ps (c # cs) \<or> (\<exists>k\<le>length cs. fnmatch ps (drop k cs))"
    proof (cases k)
      case 0
      then show ?thesis using k by simp
    next
      case (Suc j)
      then show ?thesis using k by auto
    qed
  next
    assume "fnmatch ps (c # cs) \<or> (\<exists>k\<le>length cs. fnmatch ps (drop k cs))"
    then show "\<exists>k\<le>length (c # cs). fnmatch ps (drop k (c # cs))"
    proof
      assume "fnmatch ps (c # cs)"
      then have "fnmatch ps (drop 0 (c # cs))" by simp
      then show ?thesis by blast
    next
      assume "\<exists>k\<le>length cs. fnmatch ps (drop k cs)"
      then obtain k where "k \<le> length cs" "fnmatch ps (drop k cs)" by blast
      then have "Suc k \<le> length (c # cs) \<and> fnmatch ps (drop (Suc k) (c # cs))" by simp
      then show ?thesis by blast
    qed
  qed
  then show ?case using Cons by simp
qed

lemma fnmatch_suffix:
  "CHR ''*'' \<notin> set suf \<Longrightarrow> fnmatch (CHR ''*'' # suf) n = endswith n suf"
proof -
  assume lit: "CHR ''*'' \<notin> set suf"
  have "(\<exists>k\<le>length n. drop k n = suf) = (\<exists>pre. n = pre @ suf)"
  proof
    assume "\<exists>k\<le>length n. drop k n = suf"
    then obtain k where "drop k n = suf" by blast
    then have "n = take k n @ suf" by (metis append_take_drop_id)
    then show "\<exists>pre. n = pre @ suf" ..
  next
    assume "\<exists>pre. n = pre @ suf"
    then obtain pre where "n = pre @ suf" ..
    then have "length pre \<le> length n \<and> drop (length pre) n = suf" by simp
    then show "\<exists>k\<le>length n. drop k n = suf" by blast
  qed
  then show ?thesis by (simp add: fnmatch_star fnmatch_literal [OF lit] endswith_iff)
qed

lemma fnmatch_html: "fnmatch ''*.html'' n = endswith n ''.html''"
  using fnmatch_suffix [of "''.html''" n] by simp

lemma fnmatch_htm: "fnmatch ''*.htm'' n = endswith n ''.htm''"
  using fnmatch_suffix [of "''.htm''" n] by simp

lemma fnmatch_any: "fnmatch ''*'' n"
  using fnmatch_suffix [of "[]" n] by (simp add: endswith_def)

lemma below_unfold:
  "below pat parent entries =
    select_from pat (parent, entries) @
    concat (map (\<lambda>e. case e of Dir n sub \<Rightarrow> below pat (parent @ [n]) sub | File n b \<Rightarrow> [])
             entries)"
proof -
  have "concat (map (select_from pat)
          (concat (map (\<lambda>e. case e of Dir n sub \<Rightarrow> iterate_directories (parent @ [n]) sub
                               | File n b \<Rightarrow> []) entries)))
      = concat (map (\<lambda>e. case e of Dir n sub \<Rightarrow> below pat (parent @ [n]) sub | File n b \<Rightarrow> [])
             entries)"
    by (induction entries) (auto simp: below_def split: entry.splits)
  then show ?thesis by (simp add: below_def)
qed

lemma rglob_below: "rglob pat course_root = below pat [] course_root"
  by (simp add: rglob_def below_def)

lemma select_from_any:
  "select_from ''*'' (parent, entries) = map (\<lambda>e. (parent @ [entry_name e], e)) entries"
  by (simp add: select_from_def fnmatch_any)

lemma select_from_filter:
  "select_from pat d = filter (\<lambda>p. fnmatch pat (entry_name (snd p))) (select_from ''*'' d)"
proof -
  obtain parent entries where d: "d = (parent, entries)" by (cases d)
  have "map (\<lambda>e. (parent @ [entry_name e], e)) (filter (\<lambda>e. fnmatch pat (entry_name e)) entries)
      = filter (\<lambda>p. fnmatch pat (entry_name (snd p)))
          (map (\<lambda>e. (parent @ [entry_name e], e)) entries)"
    by (induction entries) simp_all
  then show ?thesis unfolding d select_from_any by (simp add: select_from_def)
qed

lemma below_parts:
  "(parts, e) \<in> set (below pat parent entries) \<Longrightarrow>
   \<exists>rest. parts = parent @ rest \<and> rest \<noteq> []"
proof (induction parent entries arbitrary: parts e rule: iterate_directories.induct)
  case (1 parent entries)
  from "1.prems" consider
    (here) "(parts, e) \<in> set (select_from pat (parent, entries))"
    | (deeper) x where "x \<in> set entries"
        "(parts, e) \<in> set (case x of Dir n sub \<Rightarrow> below pat (parent @ [n]) sub | File n b \<Rightarrow> [])"
    by (subst (asm) below_unfold) auto
  then show ?case
  proof cases
    case here
    then show ?thesis by (auto simp: select_from_def)
  next
    case deeper
    then obtain n sub where x: "x = Dir n sub" and "(parts, e) \<in> set (below pat (parent @ [n]) sub)"
      by (cases x) auto
    with "1.IH" [OF deeper(1) x] obtain rest where "parts = (parent @ [n]) @ rest" by blast
    then show ?thesis by simp
  qed
qed

lemma concat_select_filter:
  "concat (map (select_from pat) ds)
    = filter (\<lambda>p. fnmatch pat (entry_name (snd p))) (concat (map (select_from ''*'') ds))"
proof (induction ds)
  case Nil
  then show ?case by simp
next
  case (Cons d ds)
  have "select_from pat d = filter (\<lambda>p. fnmatch pat (entry_name (snd p))) (select_from ''*'' d)"
    by (rule select_from_filter)
  then show ?case using Cons by (simp only: list.map concat.simps filter_append)
qed

lemma below_filter:
  "below pat parent entries
    = filter (\<lambda>p. fnmatch pat (entry_name (snd p))) (below ''*'' parent entries)"
  unfolding below_def by (rule concat_select_filter)

lemma rglob_filter:
  "rglob pat course_root
    = filter (\<lambda>p. fnmatch pat (entry_name (snd p))) (rglob ''*'' course_root)"
  unfolding rglob_below by (rule below_filter)

lemma rglob_split: "rglob pat course_root = select_from pat ([], course_root) @ deeper pat course_root"
proof -
  have "(case e of Dir n sub \<Rightarrow> below pat ([] @ [n]) sub | File n b \<Rightarrow> [])
      = (case e of Dir n sub \<Rightarrow> below pat [n] sub | File n b \<Rightarrow> [])" for e
    by (cases e) simp_all
  then show ?thesis
    using below_unfold [of pat "[]" course_root] by (simp add: rglob_below deeper_def)
qed

lemma deeper_parts:
  assumes "(parts, e) \<in> set (deeper pat entries)"
  shows "2 \<le> length parts"
proof -
  from assms obtain x where "x \<in> set entries"
    "(parts, e) \<in> set (case x of Dir n sub \<Rightarrow> below pat [n] sub | File n b \<Rightarrow> [])"
    by (auto simp: deeper_def)
  then obtain n sub where "(parts, e) \<in> set (below pat [n] sub)"
    by (cases x) auto
  from below_parts [OF this] obtain rest where "parts = [n] @ rest" "rest \<noteq> []" by blast
  then show ?thesis by (cases rest) auto
qed

lemma join_has_sep: "2 \<le> length parts \<Longrightarrow> sep \<in> set (join [sep] parts)"
  by (induction "[sep]" parts rule: join.induct) auto

lemma rel_str_nested:
  assumes "2 \<le> length parts" and "sep = CHR ''/'' \<or> sep = CHR 0x5C"
  shows "CHR ''/'' \<in> set (rel_str sep (parts, e))"
proof -
  have s: "sep \<in> set (str_path sep parts)"
    using assms(1) by (simp add: str_path_def join_has_sep)
  show ?thesis
  proof (cases "sep = CHR ''/''")
    case True
    then show ?thesis using replace_image [OF s, of "CHR 0x5C" "''/''"] by (simp add: rel_str_def)
  next
    case False
    then have "sep = CHR 0x5C" using assms(2) by simp
    then show ?thesis using replace_image [OF s, of "CHR 0x5C" "''/''"] by (simp add: rel_str_def)
  qed
qed

lemma rel_str_single: "rel_str sep ([n], e) = replace (CHR 0x5C) ''/'' n"
  by (simp add: rel_str_def str_path_def)

section \<open>Facts about the names of the archive\<close>

lemma split_no_sep: "sep \<notin> set s \<Longrightarrow> split sep s = [s]"
  by (induction s) auto

lemma split_append_sep: "sep \<notin> set p \<Longrightarrow> split sep (p @ sep # rest) = p # split sep rest"
  by (induction p) auto

lemma split_join:
  "parts \<noteq> [] \<Longrightarrow> \<forall>p\<in>set parts. sep \<notin> set p \<Longrightarrow> split sep (join [sep] parts) = parts"
proof (induction "[sep]" parts rule: join.induct)
  case 1
  then show ?case by simp
next
  case (2 p)
  then show ?case by (simp add: split_no_sep)
next
  case (3 p q ps)
  then show ?case by (simp add: split_append_sep)
qed

lemma norm_comps_clean:
  "\<forall>c\<in>set comps. c \<noteq> [] \<and> c \<noteq> ''.'' \<and> c \<noteq> ''..'' \<Longrightarrow>
   norm_comps b new comps = new @ comps"
  by (induction comps arbitrary: new) auto

lemma join_Nil_iff: "parts \<noteq> [] \<Longrightarrow> hd parts \<noteq> [] \<Longrightarrow> join s parts \<noteq> []"
  by (induction s parts rule: join.induct) auto

lemma hd_join: "parts \<noteq> [] \<Longrightarrow> hd parts \<noteq> [] \<Longrightarrow> hd (join s parts) = hd (hd parts)"
  by (induction s parts rule: join.induct) auto

lemma zip_arcname_clean:
  assumes ne: "parts \<noteq> []" and clean: "\<forall>n\<in>set parts. clean_name n"
  shows "zip_arcname (join ''/'' parts) = Inr (join ''/'' parts)"
proof -
  let ?path = "join ''/'' parts"
  have h: "hd parts \<noteq> []" "CHR ''/'' \<notin> set (hd parts)"
    using ne clean by (auto simp: clean_name_def)
  have p: "?path \<noteq> []" using join_Nil_iff [OF ne h(1)] .
  have "hd ?path = hd (hd parts)" by (rule hd_join [OF ne h(1)])
  moreover have "hd (hd parts) \<in> set (hd parts)" using h(1) by simp
  ultimately have first: "hd ?path \<noteq> CHR ''/''" using h(2) by metis
  then have t: "take 1 ?path \<noteq> ''/''" using p by (cases ?path) auto
  have s: "split (CHR ''/'') ?path = parts"
    using split_join [OF ne, of "CHR ''/''"] clean by (simp add: clean_name_def)
  have c: "norm_comps False [] parts = parts"
    using norm_comps_clean [of parts False "[]"] clean by (simp add: clean_name_def)
  have n: "normpath ?path = ?path"
    using p t by (simp add: normpath_def s c)
  have "dropWhile (\<lambda>c. c = CHR ''/'') ?path = ?path"
    using p first by (cases ?path) auto
  then show ?thesis using p by (simp add: zip_arcname_def n)
qed

lemma replace_join:
  "replace old new (join s parts) = join (replace old new s) (map (replace old new) parts)"
  by (induction s parts rule: join.induct) (simp_all add: replace_append)

lemma rel_str_forward:
  assumes "sep = CHR ''/'' \<or> sep = CHR 0x5C"
  shows "rel_str sep p = join ''/'' (map (replace (CHR 0x5C) ''/'') (fst p))"
  using assms by (auto simp: rel_str_def str_path_def replace_join)

lemma rel_str_clean:
  assumes "sep = CHR ''/'' \<or> sep = CHR 0x5C" and "\<forall>n\<in>set (fst p). clean_name n"
  shows "rel_str sep p = join ''/'' (fst p)"
proof -
  have "map (replace (CHR 0x5C) ''/'') (fst p) = fst p"
    using assms(2) by (induction "fst p") (auto simp: clean_name_def replace_absent map_idI)
  then show ?thesis using rel_str_forward [OF assms(1)] by simp
qed

lemma sequence_map_Inr:
  "\<forall>x\<in>set xs. f x = Inr (g x) \<Longrightarrow> sequence (map f xs) = Inr (map g xs)"
  by (induction xs) auto

lemma rglob_parts_nonempty: "p \<in> set (rglob pat course_root) \<Longrightarrow> fst p \<noteq> []"
  using below_parts [of "fst p" "snd p" pat "[]" course_root] by (simp add: rglob_below) 

lemma archive_entries_clean:
  assumes sep: "sep = CHR ''/'' \<or> sep = CHR 0x5C"
    and clean: "\<forall>p\<in>set (rglob ''*'' course_root). \<forall>n\<in>set (fst p). clean_name n"
  shows "archive_entries sep course_root manifest_bytes
    = Inr (map (\<lambda>p. (join ''/'' (fst p), file_bytes (snd p)))
             (filter (\<lambda>p. is_file (snd p)) (rglob ''*'' course_root))
           @ [(''imsmanifest.xml'', manifest_bytes)])"
proof -
  have "(case zip_arcname (rel_str sep p) of Inl e \<Rightarrow> Inl e
          | Inr n \<Rightarrow> Inr (n, file_bytes (snd p)))
      = Inr (join ''/'' (fst p), file_bytes (snd p))"
    if "p \<in> set (filter (\<lambda>p. is_file (snd p)) (rglob ''*'' course_root))" for p
  proof -
    from that have m: "p \<in> set (rglob ''*'' course_root)" by simp
    then have c: "\<forall>n\<in>set (fst p). clean_name n" using clean by blast
    have "zip_arcname (rel_str sep p) = Inr (join ''/'' (fst p))"
      using zip_arcname_clean [OF rglob_parts_nonempty [OF m] c] rel_str_clean [OF sep c]
      by simp
    then show ?thesis by simp
  qed
  then have "sequence
      (map (\<lambda>p. case zip_arcname (rel_str sep p) of Inl e \<Rightarrow> Inl e
                 | Inr n \<Rightarrow> Inr (n, file_bytes (snd p)))
        (filter (\<lambda>p. is_file (snd p)) (rglob ''*'' course_root)))
      = Inr (map (\<lambda>p. (join ''/'' (fst p), file_bytes (snd p)))
          (filter (\<lambda>p. is_file (snd p)) (rglob ''*'' course_root)))"
    by (intro sequence_map_Inr ballI) 
  then show ?thesis by (simp add: archive_entries_def)
qed

lemma staged_entries_named:
  assumes m: "CHR ''/'' \<notin> set m"
  shows "filter (\<lambda>a. fst a = m)
      (map (\<lambda>p. (join ''/'' (fst p), file_bytes (snd p)))
        (filter (\<lambda>p. is_file (snd p)) (rglob ''*'' course_root)))
    = map (\<lambda>e. (m, file_bytes e)) (filter (\<lambda>e. is_file e \<and> entry_name e = m) course_root)"
proof -
  let ?f = "\<lambda>p. (join ''/'' (fst p), file_bytes (snd p))"
  have deep: "filter (\<lambda>a. fst a = m)
      (map ?f (filter (\<lambda>p. is_file (snd p)) (deeper ''*'' course_root))) = []"
  proof -
    have "join ''/'' (fst p) \<noteq> m" if "p \<in> set (deeper ''*'' course_root)" for p
    proof -
      obtain parts e where p: "p = (parts, e)" by (cases p)
      from deeper_parts that p have "2 \<le> length parts" by blast
      from join_has_sep [OF this, of "CHR ''/''"] show ?thesis using m p by auto
    qed
    then show ?thesis by (auto simp: filter_empty_conv)
  qed
  have top: "filter (\<lambda>a. fst a = m)
      (map ?f (filter (\<lambda>p. is_file (snd p)) (select_from ''*'' ([], course_root))))
    = map (\<lambda>e. (m, file_bytes e)) (filter (\<lambda>e. is_file e \<and> entry_name e = m) course_root)"
    by (induction course_root) (auto simp: select_from_any)
  show ?thesis
    unfolding rglob_split using deep top by (auto simp: filter_empty_conv)
qed

section \<open>Facts about the script\<close>

lemma resource_href:
  "map (\<lambda>r. get r ''href'')
      (findall [''resources'', ''resource''] (manifest_tree title identifier launch_file fs))
    = [Some launch_file]"
  by (simp add: manifest_tree_def get_def)

lemma lower_examples:
  "lower ''foo.html'' = ''foo.html''" "lower ''Index.HTM'' = ''index.htm''"
  "lower ''myindex.html'' = ''myindex.html''"
  by code_simp+

lemma lower_zip: "lower ''course.zip'' = ''course.zip''"
  by code_simp

lemma rglob_member:
  assumes "(parts, e) \<in> set (rglob ''*'' course_root)" and "fnmatch pat (entry_name e)"
  shows "(parts, e) \<in> set (rglob pat course_root)"
  using assms by (subst rglob_filter) simp

lemma html_files_nonempty:
  assumes "(parts, File n b) \<in> set (rglob ''*'' course_root)"
    and "endswith n ''.html'' \<or> endswith n ''.htm''"
  shows "html_files course_root \<noteq> []"
proof -
  from assms(2) have "fnmatch ''*.html'' (entry_name (File n b))
      \<or> fnmatch ''*.htm'' (entry_name (File n b))"
    by (simp add: fnmatch_html fnmatch_htm)
  then have "(parts, File n b) \<in> set (html_files course_root)"
    using rglob_member [OF assms(1)] by (auto simp: html_files_def)
  then show ?thesis by auto
qed

lemma rglob_root_first:
  assumes "filter (\<lambda>e. fnmatch pat (entry_name e)) course_root = e # es"
  shows "\<exists>ps. rglob pat course_root = ([entry_name e], e) # ps"
  using assms by (simp add: rglob_split select_from_def)

lemma root_file_listed:
  assumes "File n b \<in> set course_root"
  shows "([n], File n b) \<in> set (rglob ''*'' course_root)"
proof -
  have "([n], File n b) \<in> set (select_from ''*'' ([], course_root))"
    using assms by (simp add: select_from_any image_iff)
  then show ?thesis by (simp add: rglob_split)
qed

lemma html_files_listed: "set (html_files course_root) \<subseteq> set (rglob ''*'' course_root)"
  by (auto simp: html_files_def rglob_filter [of "''*.html''"] rglob_filter [of "''*.htm''"])

text \<open>Where no path of the tree, file or directory, has a name ending in \<^verbatim>\<open>.html\<close> or
  \<^verbatim>\<open>.htm\<close>, the script stops at line 95.\<close>

lemma no_match_stops:
  assumes "\<forall>p\<in>set (rglob ''*'' course_root).
      \<not> endswith (entry_name (snd p)) ''.html'' \<and> \<not> endswith (entry_name (snd p)) ''.htm''"
  shows "resolve sep course_root = Inl NoContentFound"
proof -
  have "rglob ''*.html'' course_root = []" "rglob ''*.htm'' course_root = []"
    using assms
    by (simp_all add: rglob_filter [of "''*.html''"] rglob_filter [of "''*.htm''"]
        fnmatch_html fnmatch_htm filter_empty_conv)
  then show ?thesis by (simp add: resolve_def html_files_def)
qed

text \<open>Where every path that \<^verbatim>\<open>html_files\<close> holds is a regular file, and so is a root
  entry named \<^verbatim>\<open>index.html\<close>, the launch file is one of the listed files.\<close>

lemma launch_file_in_file_list:
  assumes r: "resolve sep course_root = Inr (launch_file, files)"
    and f: "\<forall>p\<in>set (html_files course_root). is_file (snd p)"
    and i: "\<forall>e\<in>set course_root. entry_name e = ''index.html'' \<longrightarrow> is_file e"
  shows "launch_file \<in> set files \<and> files \<noteq> []"
proof -
  from r obtain p ps where h: "html_files course_root = p # ps"
    by (cases "html_files course_root") (auto simp: resolve_def)
  have files: "files = file_list sep course_root" using r h by (simp add: resolve_def)
  have "launch_file \<in> set files"
  proof (cases "exists_in_root ''index.html'' course_root")
    case True
    then obtain e where e: "e \<in> set course_root" "entry_name e = ''index.html''"
      by (auto simp: exists_in_root_def)
    with i obtain b where "e = File ''index.html'' b" by (cases e) auto
    with e have "([''index.html''], File ''index.html'' b) \<in> set (rglob ''*'' course_root)"
      using root_file_listed by simp
    then have "rel_str sep ([''index.html''], File ''index.html'' b) \<in> set files"
      unfolding files file_list_def by force
    moreover have "launch_file = ''index.html''" using r h True by (simp add: resolve_def)
    ultimately show ?thesis by (simp add: rel_str_single)
  next
    case False
    then have l: "launch_file = rel_str sep p" using r h by (simp add: resolve_def)
    have "p \<in> set (rglob ''*'' course_root)" using html_files_listed h by fastforce
    moreover have "is_file (snd p)" using f h by simp
    ultimately show ?thesis unfolding l files file_list_def by simp
  qed
  then show ?thesis by auto
qed


lemma root_entry_listed:
  assumes "e \<in> set course_root"
  shows "([entry_name e], e) \<in> set (rglob ''*'' course_root)"
proof -
  have "([entry_name e], e) \<in> set (select_from ''*'' ([], course_root))"
    using assms by (simp add: select_from_any image_iff)
  then show ?thesis by (simp add: rglob_split)
qed

lemma html_files_match:
  assumes "p \<in> set (html_files course_root)"
  shows "p \<in> set (rglob ''*'' course_root)
    \<and> (endswith (entry_name (snd p)) ''.html'' \<or> endswith (entry_name (snd p)) ''.htm'')"
  using assms
  by (auto simp: html_files_def rglob_filter [of "''*.html''"] rglob_filter [of "''*.htm''"]
      fnmatch_html fnmatch_htm)

section \<open>Facts about the bytes of the manifest\<close>

lemma generate_manifest_utf8:
  \<open>generate_manifest title identifier launch_file fs
    = Inr (encode_utf8 (''<?xml version="1.0" encoding="UTF-8"?>'' @ [CHR 0x0A]
             @ manifest_text title identifier launch_file fs))\<close>
proof -
  have \<open>encode_utf8 (''<?xml version="1.0" encoding="UTF-8"?>'' @ [CHR 0x0A])
      = ''<?xml version="1.0" encoding="UTF-8"?>'' @ [CHR 0x0A]\<close>
    by (simp add: encode_utf8_def utf8_char_def)
  then have \<open>encode_utf8 ((''<?xml version="1.0" encoding="UTF-8"?>'' @ [CHR 0x0A])
        @ manifest_text title identifier launch_file fs)
      = (''<?xml version="1.0" encoding="UTF-8"?>'' @ [CHR 0x0A])
        @ encode_utf8 (manifest_text title identifier launch_file fs)\<close>
    by (simp only: encode_utf8_append)
  then show ?thesis by (simp add: generate_manifest_eq)
qed



lemma manifest_lists_file:
  assumes "f \<in> set fs"
  shows "\<exists>pre post. generate_manifest title identifier launch_file fs
    = Inr (pre @ encode_utf8 (file_text f) @ post)"
proof -
  from assms have "f \<in> set (sort fs)" by simp
  then obtain xs ys where s: "sort fs = xs @ f # ys" by (meson split_list)
  have ne: "fs \<noteq> []" using assms by auto
  let ?head = \<open>''<?xml version="1.0" encoding="UTF-8"?>'' @ [CHR 0x0A]
    @ ''<manifest xmlns:adlcp="http://www.adlnet.org/xsd/adlcp_v1p3" identifier="''
    @ escape_attrib identifier
    @ ''" version="1"><metadata><schema>ADL SCORM</schema>''
    @ ''<schemaversion>1.2</schemaversion></metadata>''
    @ ''<organizations default="ORG-1"><organization identifier="ORG-1">''
    @ title_text title
    @ ''<item identifier="ITEM-1" identifierref="RES-1">''
    @ title_text title
    @ ''</item></organization></organizations>''
    @ ''<resources><resource identifier="RES-1" type="webcontent" adlcp:scormtype="sco" href="''
    @ escape_attrib launch_file @ ''">'' @ concat (map file_text xs)\<close>
  let ?tail = \<open>concat (map file_text ys) @ ''</resource></resources></manifest>''\<close>
  have \<open>''<?xml version="1.0" encoding="UTF-8"?>'' @ [CHR 0x0A]
      @ manifest_text title identifier launch_file fs = ?head @ file_text f @ ?tail\<close>
    using ne by (simp add: manifest_text_def s)
  then have "generate_manifest title identifier launch_file fs
      = Inr (encode_utf8 ?head @ encode_utf8 (file_text f) @ encode_utf8 ?tail)"
    by (simp only: generate_manifest_utf8 encode_utf8_append)
  then show ?thesis by blast
qed

lemma file_text_imsmanifest:
  \<open>encode_utf8 (file_text ''imsmanifest.xml'') = ''<file href="imsmanifest.xml" />''\<close>
  by (simp add: file_text_def escape_attrib_def encode_utf8_def utf8_char_def)

lemma lower_upper_case: "lower ''INDEX.HTML'' = ''index.html''"
  by code_simp

section \<open>The name of the archive (C9)\<close>

text \<open>
  C9 (as amended). The archive is named after the title with the white space at its two
  ends removed and, in what remains, every space character replaced by an underscore; every
  other character, a tab inside the title too, is kept as it is. The name ends in
  \<^verbatim>\<open>_SCORM.zip\<close>.
\<close>

theorem pkg_name_strips_and_replaces_spaces:
  assumes "\<forall>c\<in>set l. isspace c" and "\<forall>c\<in>set r. isspace c"
    and "core = [] \<or> (\<not> isspace (hd core) \<and> \<not> isspace (last core))"
  shows "pkg_name (l @ core @ r)
    = map (\<lambda>c. if c = CHR '' '' then CHR ''_'' else c) core @ ''_SCORM.zip''"
  using strip_core [OF assms] by (simp add: pkg_name_def replace_char_map)

theorem pkg_name_witness:
  "isspace (CHR '' '') \<and> isspace (CHR 0x09)
   \<and> \<not> isspace (hd ''Demo Course'') \<and> \<not> isspace (last ''Demo Course'')
   \<and> pkg_name ('' '' @ ''Demo Course'' @ [CHR 0x09]) = ''Demo_Course_SCORM.zip''"
  using pkg_name_strips_and_replaces_spaces [of "'' ''" "[CHR 0x09]" "''Demo Course''"]
  by (simp add: isspace_def)

theorem pkg_name_tab_counterexample:
  "pkg_name [CHR ''a'', CHR 0x09, CHR ''b'']
   \<noteq> spec_sanitize [CHR ''a'', CHR 0x09, CHR ''b''] @ ''_SCORM.zip''"
  by (simp add: pkg_name_def spec_sanitize_def strip_def isspace_def)

section \<open>The files of the resource (C3)\<close>



section \<open>The declaration of the manifest (C2)\<close>

text \<open>
  C2 (as amended). For every title, identifier, launch file and file list,
  \<^verbatim>\<open>generate_manifest\<close> returns bytes and raises nothing: the bytes are the declaration
  \<^verbatim>\<open><?xml version="1.0" encoding="UTF-8"?>\<close>, a newline, and then the bytes that
  \<^verbatim>\<open>ET.tostring\<close> gives for the element tree, which are the UTF-8 encoding of
  \<^verbatim>\<open>manifest_text\<close>. The mark \<^verbatim>\<open><?\<close> starts at one place of the output only, its first
  byte: the serialized tree brings no second declaration. Where the title, the identifier,
  the launch file and the file names hold only characters that XML allows (tab, line
  feed, carriage return and the characters from U+0020 on), the serialized tree is a
  well-formed element and the output is a well-formed document in UTF-8.
\<close>

theorem generate_manifest_document:
  \<open>\<exists>namespace_map xml_bytes.
     registered = Inr namespace_map
     \<and> tostring namespace_map (manifest_tree title identifier launch_file fs) = Inr xml_bytes
     \<and> xml_bytes = encode_utf8 (manifest_text title identifier launch_file fs)
     \<and> generate_manifest title identifier launch_file fs
         = Inr (''<?xml version="1.0" encoding="UTF-8"?>'' @ [CHR 0x0A] @ xml_bytes)
     \<and> occurrences ''<?''
           (''<?xml version="1.0" encoding="UTF-8"?>'' @ [CHR 0x0A] @ xml_bytes) = 1
     \<and> (list_all xml_char title \<and> list_all xml_char identifier
          \<and> list_all xml_char launch_file \<and> list_all (list_all xml_char) fs
         \<longrightarrow> xml_element (manifest_text title identifier launch_file fs)
             \<and> well_formed_utf8
                 (''<?xml version="1.0" encoding="UTF-8"?>'' @ [CHR 0x0A] @ xml_bytes))\<close>
proof -
  let ?text = "manifest_text title identifier launch_file fs"
  let ?body = "encode_utf8 ?text"
  have "occurrences ''<?'' ?body = 0"
    by (rule pi_free_occurrences) (rule pi_free_manifest_text)
  then have one: \<open>occurrences ''<?''
      (''<?xml version="1.0" encoding="UTF-8"?>'' @ [CHR 0x0A] @ ?body) = 1\<close>
    by simp
  have wf: \<open>xml_element ?text
      \<and> well_formed_utf8 (''<?xml version="1.0" encoding="UTF-8"?>'' @ [CHR 0x0A] @ ?body)\<close>
    if clean: "list_all xml_char title \<and> list_all xml_char identifier
      \<and> list_all xml_char launch_file \<and> list_all (list_all xml_char) fs"
  proof -
    have e: "xml_element ?text"
      by (rule manifest_text_element) (use clean in simp_all)
    have w: \<open>well_formed (''<?xml version="1.0" encoding="UTF-8"?>'' @ [CHR 0x0A] @ ?text)\<close>
      by (rule manifest_well_formed) (use clean in simp_all)
    have \<open>(Inr (''<?xml version="1.0" encoding="UTF-8"?>'' @ [CHR 0x0A] @ ?body) :: exn + bytes)
        = generate_manifest title identifier launch_file fs\<close>
      by (rule generate_manifest_eq [symmetric])
    also have \<open>\<dots>
        = Inr (encode_utf8 (''<?xml version="1.0" encoding="UTF-8"?>'' @ [CHR 0x0A] @ ?text))\<close>
      by (rule generate_manifest_utf8)
    finally have \<open>''<?xml version="1.0" encoding="UTF-8"?>'' @ [CHR 0x0A] @ ?body
        = encode_utf8 (''<?xml version="1.0" encoding="UTF-8"?>'' @ [CHR 0x0A] @ ?text)\<close>
      by (simp only: sum.inject)
    then show ?thesis using e w unfolding well_formed_utf8_def by blast
  qed
  show ?thesis
    using registered_eq tostring_manifest_tree generate_manifest_eq one wf by blast
qed

text \<open>A title with \<^verbatim>\<open>&\<close>, \<^verbatim>\<open><\<close>, \<^verbatim>\<open>>\<close> and the letter U+00E9, and a file name with a
  quotation mark: the output is well formed.\<close>

theorem generate_manifest_document_witness:
  \<open>list_all xml_char (''R&D <caf'' @ [CHR 0xE9] @ ''>'')
   \<and> list_all xml_char ''com.example.scorm.0a1b2c3d''
   \<and> list_all xml_char ''index.html''
   \<and> list_all (list_all xml_char) [''index.html'', ''a'' @ [CHR 0x22] @ ''b.css'']
   \<and> (\<exists>xml_bytes.
        generate_manifest (''R&D <caf'' @ [CHR 0xE9] @ ''>'') ''com.example.scorm.0a1b2c3d''
            ''index.html'' [''index.html'', ''a'' @ [CHR 0x22] @ ''b.css'']
          = Inr (''<?xml version="1.0" encoding="UTF-8"?>'' @ [CHR 0x0A] @ xml_bytes)
        \<and> occurrences ''<?''
            (''<?xml version="1.0" encoding="UTF-8"?>'' @ [CHR 0x0A] @ xml_bytes) = 1
        \<and> well_formed_utf8
            (''<?xml version="1.0" encoding="UTF-8"?>'' @ [CHR 0x0A] @ xml_bytes))\<close>
proof -
  have c: \<open>list_all xml_char (''R&D <caf'' @ [CHR 0xE9] @ ''>'')
      \<and> list_all xml_char ''com.example.scorm.0a1b2c3d''
      \<and> list_all xml_char ''index.html''
      \<and> list_all (list_all xml_char) [''index.html'', ''a'' @ [CHR 0x22] @ ''b.css'']\<close>
    by (simp add: xml_char_def)
  from generate_manifest_document [of \<open>''R&D <caf'' @ [CHR 0xE9] @ ''>''\<close>
      "''com.example.scorm.0a1b2c3d''" "''index.html''"
      \<open>[''index.html'', ''a'' @ [CHR 0x22] @ ''b.css'']\<close>] c
  show ?thesis by (elim exE conjE) (intro conjI exI, assumption+, blast+)
qed

text \<open>
  A title that consists of the one character U+0001 makes a valid input, but the character
  is written as it is, between \<^verbatim>\<open><title>\<close> and \<^verbatim>\<open></title>\<close>; no XML document holds this
  character, so the output is not a well-formed document.
\<close>

theorem control_character_counterexample:
  \<open>generate_manifest [CHR 0x01] ''com.example.scorm.0a1b2c3d'' ''index.html'' [''index.html'']
    = Inr (''<?xml version="1.0" encoding="UTF-8"?>'' @ [CHR 0x0A]
        @ ''<manifest xmlns:adlcp="http://www.adlnet.org/xsd/adlcp_v1p3"''
        @ '' identifier="com.example.scorm.0a1b2c3d" version="1">''
        @ ''<metadata><schema>ADL SCORM</schema><schemaversion>1.2</schemaversion></metadata>''
        @ ''<organizations default="ORG-1"><organization identifier="ORG-1">''
        @ ''<title>'' @ [CHR 0x01] @ ''</title>''
        @ ''<item identifier="ITEM-1" identifierref="RES-1"><title>'' @ [CHR 0x01]
        @ ''</title></item>''
        @ ''</organization></organizations>''
        @ ''<resources><resource identifier="RES-1" type="webcontent"''
        @ '' adlcp:scormtype="sco" href="index.html">''
        @ ''<file href="index.html" /></resource></resources></manifest>'')
   \<and> \<not> xml_char (CHR 0x01)
   \<and> \<not> well_formed_utf8 (''<?xml version="1.0" encoding="UTF-8"?>'' @ [CHR 0x0A]
        @ ''<manifest xmlns:adlcp="http://www.adlnet.org/xsd/adlcp_v1p3"''
        @ '' identifier="com.example.scorm.0a1b2c3d" version="1">''
        @ ''<metadata><schema>ADL SCORM</schema><schemaversion>1.2</schemaversion></metadata>''
        @ ''<organizations default="ORG-1"><organization identifier="ORG-1">''
        @ ''<title>'' @ [CHR 0x01] @ ''</title>''
        @ ''<item identifier="ITEM-1" identifierref="RES-1"><title>'' @ [CHR 0x01]
        @ ''</title></item>''
        @ ''</organization></organizations>''
        @ ''<resources><resource identifier="RES-1" type="webcontent"''
        @ '' adlcp:scormtype="sco" href="index.html">''
        @ ''<file href="index.html" /></resource></resources></manifest>'')\<close>
  (is "?g = Inr ?out \<and> _ \<and> _")
proof (intro conjI)
  show "?g = Inr ?out"
    by (simp add: generate_manifest_eq manifest_text_def title_text_def file_text_def
        escape_attrib_def escape_cdata_def encode_utf8_def utf8_char_def)
  show n: "\<not> xml_char (CHR 0x01)" by (simp add: xml_char_def)
  show "\<not> well_formed_utf8 ?out"
  proof
    assume "well_formed_utf8 ?out"
    moreover have "CHR 0x01 \<in> set ?out" by simp
    moreover have "(of_char (CHR 0x01) :: nat) < 128" by simp
    ultimately have "xml_char (CHR 0x01)" by (rule well_formed_utf8_bytes)
    then show False using n by simp
  qed
qed

section \<open>The namespaces of the manifest (C1)\<close>

text \<open>
  C1. The manifest for the title \<^verbatim>\<open>Demo Course\<close>, the identifier
  \<^verbatim>\<open>com.example.scorm.0a1b2c3d\<close>, the launch file \<^verbatim>\<open>index.html\<close> and the one file
  \<^verbatim>\<open>index.html\<close>, byte for byte. The metadata, the organization, the item and the resource
  are as C1 says, but the tag of the root is the unqualified \<^verbatim>\<open>manifest\<close>: the root carries
  the declaration of the prefix \<^verbatim>\<open>adlcp\<close> alone, neither
  \<^verbatim>\<open>xmlns="http://www.imsglobal.org/xsd/imscp_v1p1"\<close> nor a declaration of \<^verbatim>\<open>xsi\<close>.
  The tags are created without a namespace, and the serializer declares only the
  namespaces that the names of the tree use; the closed form
  \<^verbatim>\<open>generate_manifest_eq\<close> shows the same for every input.
\<close>

theorem demo_manifest_has_no_default_namespace:
  \<open>generate_manifest ''Demo Course'' ''com.example.scorm.0a1b2c3d'' ''index.html''
      [''index.html'']
    = Inr (''<?xml version="1.0" encoding="UTF-8"?>'' @ [CHR 0x0A]
        @ ''<manifest xmlns:adlcp="http://www.adlnet.org/xsd/adlcp_v1p3"''
        @ '' identifier="com.example.scorm.0a1b2c3d" version="1">''
        @ ''<metadata><schema>ADL SCORM</schema><schemaversion>1.2</schemaversion></metadata>''
        @ ''<organizations default="ORG-1"><organization identifier="ORG-1">''
        @ ''<title>Demo Course</title>''
        @ ''<item identifier="ITEM-1" identifierref="RES-1"><title>Demo Course</title></item>''
        @ ''</organization></organizations>''
        @ ''<resources><resource identifier="RES-1" type="webcontent"''
        @ '' adlcp:scormtype="sco" href="index.html">''
        @ ''<file href="index.html" /></resource></resources></manifest>'')
    \<and> tag (manifest_tree ''Demo Course'' ''com.example.scorm.0a1b2c3d'' ''index.html''
          [''index.html'']) = ''manifest''\<close>
  by (simp add: generate_manifest_eq manifest_text_def title_text_def file_text_def
      escape_attrib_def escape_cdata_def encode_utf8_def utf8_char_def manifest_tree_def)

section \<open>Staging a single document (C7)\<close>

text \<open>
  C7. Line 87 keeps the name of the upload when the name in lower case ends in
  \<^verbatim>\<open>index.html\<close> or \<^verbatim>\<open>index.htm\<close>; it does not compare the name with these two names.
  The document \<^verbatim>\<open>myindex.html\<close> is neither of the two and is to be staged as \<^verbatim>\<open>index.html\<close>,
  as \<^verbatim>\<open>foo.html\<close> is; it is staged under its own name, which becomes the launch file, the
  \<^verbatim>\<open>href\<close> of the resource and the name in the archive. The document \<^verbatim>\<open>INDEX.HTML\<close>
  passes the test of line 87 in lower case and keeps its name, which the patterns of
  line 92 do not match: the script stops with \<^verbatim>\<open>No HTML files found\<close> for an upload
  that is one HTML document.
\<close>

theorem single_document_name_is_tested_by_suffix:
  \<open>stage reject_all \<lparr>name = ''foo.html'', buffer = ''<html></html>''\<rparr>
     = Inr [File ''index.html'' ''<html></html>'']
   \<and> stage reject_all \<lparr>name = ''myindex.html'', buffer = ''<html></html>''\<rparr>
     = Inr [File ''myindex.html'' ''<html></html>'']
   \<and> resolve (CHR ''/'') [File ''myindex.html'' ''<html></html>'']
     = Inr (''myindex.html'', [''myindex.html''])
   \<and> map (\<lambda>r. get r ''href'')
         (findall [''resources'', ''resource'']
           (manifest_tree ''T'' ''id'' ''myindex.html'' [''myindex.html'']))
     = [Some ''myindex.html'']
   \<and> app (CHR ''/'') reject_all ''T'' ''id''
         \<lparr>name = ''myindex.html'', buffer = ''<html></html>''\<rparr>
     = Inr \<lparr>file_name = ''T_SCORM.zip'',
            data = [(''myindex.html'', ''<html></html>''),
                    (''imsmanifest.xml'',
                     ''<?xml version="1.0" encoding="UTF-8"?>'' @ [CHR 0x0A]
        @ ''<manifest xmlns:adlcp="http://www.adlnet.org/xsd/adlcp_v1p3"''
        @ '' identifier="id" version="1">''
        @ ''<metadata><schema>ADL SCORM</schema><schemaversion>1.2</schemaversion></metadata>''
        @ ''<organizations default="ORG-1"><organization identifier="ORG-1">''
        @ ''<title>T</title>''
        @ ''<item identifier="ITEM-1" identifierref="RES-1"><title>T</title></item>''
        @ ''</organization></organizations>''
        @ ''<resources><resource identifier="RES-1" type="webcontent"''
        @ '' adlcp:scormtype="sco" href="myindex.html">''
        @ ''<file href="myindex.html" /></resource></resources></manifest>'')]\<rparr>
   \<and> stage reject_all \<lparr>name = ''INDEX.HTML'', buffer = ''<html></html>''\<rparr>
     = Inr [File ''INDEX.HTML'' ''<html></html>'']
   \<and> html_files [File ''INDEX.HTML'' ''<html></html>''] = []
   \<and> app (CHR ''/'') reject_all ''T'' ''id''
         \<lparr>name = ''INDEX.HTML'', buffer = ''<html></html>''\<rparr>
     = Inl NoContentFound\<close>
proof -
  have foo: "stage reject_all \<lparr>name = ''foo.html'', buffer = ''<html></html>''\<rparr>
      = Inr [File ''index.html'' ''<html></html>'']"
    by (simp add: stage_def endswith_def lower_examples)
  have my: "stage reject_all \<lparr>name = ''myindex.html'', buffer = ''<html></html>''\<rparr>
      = Inr [File ''myindex.html'' ''<html></html>'']"
    by (simp add: stage_def endswith_def lower_examples)
  have r: "resolve (CHR ''/'') [File ''myindex.html'' ''<html></html>'']
      = Inr (''myindex.html'', [''myindex.html''])"
    by (simp add: resolve_def html_files_def rglob_def select_from_def exists_in_root_def
        file_list_def rel_str_def str_path_def)
  have g: \<open>generate_manifest ''T'' ''id'' ''myindex.html'' [''myindex.html'']
      = Inr (''<?xml version="1.0" encoding="UTF-8"?>'' @ [CHR 0x0A]
        @ ''<manifest xmlns:adlcp="http://www.adlnet.org/xsd/adlcp_v1p3"''
        @ '' identifier="id" version="1">''
        @ ''<metadata><schema>ADL SCORM</schema><schemaversion>1.2</schemaversion></metadata>''
        @ ''<organizations default="ORG-1"><organization identifier="ORG-1">''
        @ ''<title>T</title>''
        @ ''<item identifier="ITEM-1" identifierref="RES-1"><title>T</title></item>''
        @ ''</organization></organizations>''
        @ ''<resources><resource identifier="RES-1" type="webcontent"''
        @ '' adlcp:scormtype="sco" href="myindex.html">''
        @ ''<file href="myindex.html" /></resource></resources></manifest>'')\<close>
    by (simp add: generate_manifest_eq manifest_text_def title_text_def file_text_def
        escape_attrib_def escape_cdata_def encode_utf8_def utf8_char_def)
  have a: "archive_entries (CHR ''/'') [File ''myindex.html'' ''<html></html>''] m
      = Inr [(''myindex.html'', ''<html></html>''), (''imsmanifest.xml'', m)]" for m
    by (simp add: archive_entries_def rglob_def select_from_def rel_str_def str_path_def
        zip_arcname_def normpath_def)
  have n: "pkg_name ''T'' = ''T_SCORM.zip''"
    by (simp add: pkg_name_def strip_def isspace_def)
  have app_my: "app (CHR ''/'') reject_all ''T'' ''id''
      \<lparr>name = ''myindex.html'', buffer = ''<html></html>''\<rparr>
      = Inr \<lparr>file_name = ''T_SCORM.zip'',
             data = [(''myindex.html'', ''<html></html>''), (''imsmanifest.xml'', m)]\<rparr>"
    if "generate_manifest ''T'' ''id'' ''myindex.html'' [''myindex.html''] = Inr m" for m
    using that by (simp add: app_def my r a n)
  have up: "stage reject_all \<lparr>name = ''INDEX.HTML'', buffer = ''<html></html>''\<rparr>
      = Inr [File ''INDEX.HTML'' ''<html></html>'']"
    by (simp add: stage_def endswith_def lower_upper_case)
  have h: "html_files [File ''INDEX.HTML'' ''<html></html>''] = []"
    by (simp add: html_files_def rglob_def select_from_def)
  have app_up: "app (CHR ''/'') reject_all ''T'' ''id''
      \<lparr>name = ''INDEX.HTML'', buffer = ''<html></html>''\<rparr> = Inl NoContentFound"
    by (simp add: app_def up resolve_def h)
  show ?thesis
    by (intro conjI)
      (rule foo, rule my, rule r, rule resource_href, rule app_my [OF g], rule up, rule h,
       rule app_up)
qed

section \<open>The launch file (C4)\<close>

text \<open>
  C4 (as amended). Take a staged tree that holds at least one HTML or HTM document, a
  regular file whose name ends in \<^verbatim>\<open>.html\<close> or \<^verbatim>\<open>.htm\<close>, and in which every path with
  such a name is a regular file. The script goes on to the manifest with a launch file
  that is one of the listed files, and: if \<^verbatim>\<open>index.html\<close> exists at the root, it is the
  launch file; otherwise the launch file is the first document of \<^verbatim>\<open>html_files\<close>, that is
  the first \<^verbatim>\<open>*.html\<close> document in the order of the traversal and, only where there is no
  \<^verbatim>\<open>*.html\<close> document, the first \<^verbatim>\<open>*.htm\<close> document. The traversal yields the documents
  of the root, in the order in which the file system lists them, before any document of a
  sub-directory; nothing is sorted by path string. In particular, where
  \<^verbatim>\<open>docs/index.html\<close> is the only document, it is the launch file.
\<close>

theorem launch_file_selection:
  assumes doc: "(parts, File n b) \<in> set (rglob ''*'' course_root)"
    and html: "endswith n ''.html'' \<or> endswith n ''.htm''"
    and regular: "\<forall>p\<in>set (rglob ''*'' course_root).
      endswith (entry_name (snd p)) ''.html'' \<or> endswith (entry_name (snd p)) ''.htm''
      \<longrightarrow> is_file (snd p)"
  shows "\<exists>launch files. resolve sep course_root = Inr (launch, files)
    \<and> launch \<in> set files
    \<and> (exists_in_root ''index.html'' course_root \<longrightarrow> launch = ''index.html'')
    \<and> (\<not> exists_in_root ''index.html'' course_root \<longrightarrow>
          (\<forall>p ps. rglob ''*.html'' course_root = p # ps \<longrightarrow> launch = rel_str sep p)
        \<and> (rglob ''*.html'' course_root = [] \<longrightarrow>
              (\<forall>p ps. rglob ''*.htm'' course_root = p # ps \<longrightarrow> launch = rel_str sep p))
        \<and> (\<forall>e es. filter (\<lambda>e. endswith (entry_name e) ''.html'') course_root = e # es
              \<longrightarrow> launch = replace (CHR 0x5C) ''/'' (entry_name e))
        \<and> (\<forall>e. html_files course_root = [([''docs'', ''index.html''], e)]
              \<longrightarrow> sep = CHR ''/'' \<or> sep = CHR 0x5C \<longrightarrow> launch = ''docs/index.html''))"
proof -
  from html_files_nonempty [OF doc html] obtain p ps where h: "html_files course_root = p # ps"
    by (cases "html_files course_root") auto
  let ?launch = "if exists_in_root ''index.html'' course_root then ''index.html''
                 else rel_str sep p"
  have r: "resolve sep course_root = Inr (?launch, file_list sep course_root)"
    by (simp add: resolve_def h)
  have f: "\<forall>p\<in>set (html_files course_root). is_file (snd p)"
    using html_files_match regular by blast
  have i: "\<forall>e\<in>set course_root. entry_name e = ''index.html'' \<longrightarrow> is_file e"
  proof (intro ballI impI)
    fix e
    assume e: "e \<in> set course_root" "entry_name e = ''index.html''"
    have "endswith (entry_name (snd ([entry_name e], e))) ''.html''"
      using e(2) by (simp add: endswith_def)
    with regular root_entry_listed [OF e(1)] show "is_file e" by fastforce
  qed
  have m: "?launch \<in> set (file_list sep course_root)"
    using launch_file_in_file_list [OF r f i] by simp
  have a: "\<forall>q qs. rglob ''*.html'' course_root = q # qs \<longrightarrow> rel_str sep p = rel_str sep q"
    using h by (auto simp: html_files_def)
  have b: "rglob ''*.html'' course_root = [] \<longrightarrow>
      (\<forall>q qs. rglob ''*.htm'' course_root = q # qs \<longrightarrow> rel_str sep p = rel_str sep q)"
    using h by (auto simp: html_files_def)
  have c: "\<forall>e es. filter (\<lambda>e. endswith (entry_name e) ''.html'') course_root = e # es
      \<longrightarrow> rel_str sep p = replace (CHR 0x5C) ''/'' (entry_name e)"
  proof (intro allI impI)
    fix e es
    assume "filter (\<lambda>e. endswith (entry_name e) ''.html'') course_root = e # es"
    then have "filter (\<lambda>e. fnmatch ''*.html'' (entry_name e)) course_root = e # es"
      by (simp add: fnmatch_html)
    from rglob_root_first [OF this] obtain qs
      where "rglob ''*.html'' course_root = ([entry_name e], e) # qs" ..
    then have "p = ([entry_name e], e)" using h by (simp add: html_files_def)
    then show "rel_str sep p = replace (CHR 0x5C) ''/'' (entry_name e)"
      by (simp add: rel_str_single)
  qed
  have d: "\<forall>e. html_files course_root = [([''docs'', ''index.html''], e)]
      \<longrightarrow> sep = CHR ''/'' \<or> sep = CHR 0x5C \<longrightarrow> rel_str sep p = ''docs/index.html''"
    using h by (auto simp: rel_str_def str_path_def)
  show ?thesis
    using r m a b c d by (intro exI [of _ ?launch] exI [of _ "file_list sep course_root"]) simp
qed

theorem launch_file_selection_witness:
  "([''docs'', ''index.html''], File ''index.html'' ''<html></html>'')
      \<in> set (rglob ''*'' [File ''style.css'' ''p{}'',
                           Dir ''docs'' [File ''index.html'' ''<html></html>'']])
   \<and> endswith ''index.html'' ''.html''
   \<and> resolve (CHR ''/'') [File ''style.css'' ''p{}'',
                           Dir ''docs'' [File ''index.html'' ''<html></html>'']]
       = Inr (''docs/index.html'', [''style.css'', ''docs/index.html''])"
proof -
  let ?root = "[File ''style.css'' ''p{}'', Dir ''docs'' [File ''index.html'' ''<html></html>'']]"
  have g: "rglob ''*'' ?root
      = [([''style.css''], File ''style.css'' ''p{}''),
         ([''docs''], Dir ''docs'' [File ''index.html'' ''<html></html>'']),
         ([''docs'', ''index.html''], File ''index.html'' ''<html></html>'')]"
    by (simp add: rglob_def select_from_def)
  have doc: "([''docs'', ''index.html''], File ''index.html'' ''<html></html>'')
      \<in> set (rglob ''*'' ?root)"
    by (simp add: g)
  have html: "endswith ''index.html'' ''.html'' \<or> endswith ''index.html'' ''.htm''"
    by (simp add: endswith_def)
  have regular: "\<forall>p\<in>set (rglob ''*'' ?root).
      endswith (entry_name (snd p)) ''.html'' \<or> endswith (entry_name (snd p)) ''.htm''
      \<longrightarrow> is_file (snd p)"
    by (simp add: g endswith_def)
  have h: "html_files ?root = [([''docs'', ''index.html''], File ''index.html'' ''<html></html>'')]"
    by (simp add: html_files_def rglob_def select_from_def)
  have x: "\<not> exists_in_root ''index.html'' ?root"
    by (simp add: exists_in_root_def)
  from launch_file_selection [OF doc html regular, of "CHR ''/''"] h x
  obtain files where "resolve (CHR ''/'') ?root = Inr (''docs/index.html'', files)"
    by auto
  moreover have "file_list (CHR ''/'') ?root = [''style.css'', ''docs/index.html'']"
    by (simp add: file_list_def g rel_str_def str_path_def)
  ultimately have "resolve (CHR ''/'') ?root
      = Inr (''docs/index.html'', [''style.css'', ''docs/index.html''])"
    by (simp add: resolve_def h)
  with doc html show ?thesis by (simp add: endswith_def)
qed

text \<open>A tree with \<^verbatim>\<open>docs/index.html\<close> and no \<^verbatim>\<open>index.html\<close> at its root whose launch file is
  \<^verbatim>\<open>about.html\<close>; and a root listed as \<^verbatim>\<open>b.html\<close>, \<^verbatim>\<open>a.html\<close> whose launch file is
  \<^verbatim>\<open>b.html\<close>, the greater of the two path strings.\<close>

theorem nested_index_counterexample:
  "\<not> exists_in_root ''index.html''
        [File ''about.html'' ''<html></html>'',
         Dir ''docs'' [File ''index.html'' ''<html></html>'']]
   \<and> ([''docs'', ''index.html''], File ''index.html'' ''<html></html>'')
      \<in> set (rglob ''*'' [File ''about.html'' ''<html></html>'',
                           Dir ''docs'' [File ''index.html'' ''<html></html>'']])
   \<and> resolve (CHR ''/'') [File ''about.html'' ''<html></html>'',
                           Dir ''docs'' [File ''index.html'' ''<html></html>'']]
       = Inr (''about.html'', [''about.html'', ''docs/index.html''])
   \<and> ''about.html'' \<noteq> ''docs/index.html''
   \<and> resolve (CHR ''/'') [File ''b.html'' ''<html></html>'', File ''a.html'' ''<html></html>'']
       = Inr (''b.html'', [''b.html'', ''a.html''])
   \<and> ''a.html'' < ''b.html''"
  by (simp add: resolve_def html_files_def rglob_def select_from_def exists_in_root_def
      file_list_def rel_str_def str_path_def)

section \<open>A tree without HTML documents (C5)\<close>

text \<open>
  C5. An archive whose only member is \<^verbatim>\<open>notes.html/readme.txt\<close> is staged as a directory
  \<^verbatim>\<open>notes.html\<close> with one text file: the tree holds no HTML or HTM document.
  \<^verbatim>\<open>rglob('*.html')\<close> yields the directory, so \<^verbatim>\<open>html_files\<close> is not empty, the script
  does not stop at line 95, takes the directory as the launch file and offers an archive.
  The enumeration of lines 105 and 106 keeps regular files only; that of line 92 does not.
\<close>

theorem directory_named_html_is_packaged:
  "rglob ''*'' [Dir ''notes.html'' [File ''readme.txt'' ''hello'']]
    = [([''notes.html''], Dir ''notes.html'' [File ''readme.txt'' ''hello'']),
       ([''notes.html'', ''readme.txt''], File ''readme.txt'' ''hello'')]
   \<and> resolve (CHR ''/'') [Dir ''notes.html'' [File ''readme.txt'' ''hello'']]
       = Inr (''notes.html'', [''notes.html/readme.txt''])
   \<and> (\<exists>m. app (CHR ''/'') (unzip_to [Dir ''notes.html'' [File ''readme.txt'' ''hello'']])
               ''T'' ''id'' \<lparr>name = ''notes.zip'', buffer = ''PK''\<rparr>
            = Inr \<lparr>file_name = ''T_SCORM.zip'',
                   data = [(''notes.html/readme.txt'', ''hello''), (''imsmanifest.xml'', m)]\<rparr>)"
proof -
  have r: "resolve (CHR ''/'') [Dir ''notes.html'' [File ''readme.txt'' ''hello'']]
      = Inr (''notes.html'', [''notes.html/readme.txt''])"
    by (simp add: resolve_def html_files_def rglob_def select_from_def exists_in_root_def
        file_list_def rel_str_def str_path_def)
  obtain m where m: "generate_manifest ''T'' ''id'' ''notes.html'' [''notes.html/readme.txt'']
      = Inr m"
    using generate_manifest_eq by blast
  have s: "stage (unzip_to [Dir ''notes.html'' [File ''readme.txt'' ''hello'']])
      \<lparr>name = ''notes.zip'', buffer = ''PK''\<rparr>
      = Inr [Dir ''notes.html'' [File ''readme.txt'' ''hello'']]"
    by (simp add: stage_def unzip_to_def endswith_def lower_def lower_char_def)
  have n: "pkg_name ''T'' = ''T_SCORM.zip''"
    by (simp add: pkg_name_def strip_def isspace_def)
  have a: "archive_entries (CHR ''/'') [Dir ''notes.html'' [File ''readme.txt'' ''hello'']] m
      = Inr [(''notes.html/readme.txt'', ''hello''), (''imsmanifest.xml'', m)]"
    by (simp add: archive_entries_def rglob_def select_from_def rel_str_def str_path_def
        zip_arcname_def normpath_def)
  have "app (CHR ''/'') (unzip_to [Dir ''notes.html'' [File ''readme.txt'' ''hello'']])
      ''T'' ''id'' \<lparr>name = ''notes.zip'', buffer = ''PK''\<rparr>
      = Inr \<lparr>file_name = ''T_SCORM.zip'',
             data = [(''notes.html/readme.txt'', ''hello''), (''imsmanifest.xml'', m)]\<rparr>"
    by (simp add: app_def s r m n a)
  moreover have "rglob ''*'' [Dir ''notes.html'' [File ''readme.txt'' ''hello'']]
    = [([''notes.html''], Dir ''notes.html'' [File ''readme.txt'' ''hello'']),
       ([''notes.html'', ''readme.txt''], File ''readme.txt'' ''hello'')]"
    by (simp add: rglob_def select_from_def)
  ultimately show ?thesis using r by blast
qed

section \<open>The arguments of the manifest builder (C8)\<close>

text \<open>
  C8. For a staged root with a directory \<^verbatim>\<open>index.html\<close> and a regular file
  \<^verbatim>\<open>page.htm\<close>, an HTML document is found and line 110 is reached with the launch file
  \<^verbatim>\<open>index.html\<close>, which the file list \<^verbatim>\<open>['page.htm']\<close> does not hold; for a staged tree
  that is one empty directory named \<^verbatim>\<open>intro.html\<close>, line 110 is reached with the launch
  file \<^verbatim>\<open>intro.html\<close> and an empty file list. (Lemma \<^verbatim>\<open>launch_file_in_file_list\<close> gives
  the invariant where the matched paths are regular files.)
\<close>

theorem launch_file_missing_from_file_list:
  "resolve (CHR ''/'') [Dir ''index.html'' [], File ''page.htm'' ''<html></html>'']
     = Inr (''index.html'', [''page.htm''])
   \<and> ''index.html'' \<notin> set [''page.htm'']
   \<and> resolve (CHR ''/'') [Dir ''intro.html'' []] = Inr (''intro.html'', [])"
  by (simp add: resolve_def html_files_def rglob_def select_from_def exists_in_root_def
      file_list_def rel_str_def str_path_def)

section \<open>An archive that cannot be extracted (C6)\<close>

text \<open>
  C6. For an upload whose name ends in \<^verbatim>\<open>.zip\<close> and whose extraction raises: if the
  exception is \<^verbatim>\<open>zipfile.BadZipFile\<close> the script reports the invalid archive and stops; any
  other exception, such as the \<^verbatim>\<open>NotImplementedError\<close> that \<^verbatim>\<open>zipfile\<close> raises for a
  compression method it does not implement, passes the handler of line 82 and ends the
  script uncaught.
\<close>

theorem only_BadZipFile_is_caught:
  assumes "endswith (lower (name uploaded)) ''.zip''"
    and "extractall (buffer uploaded) = Inl e"
  shows "(e = BadZipFile \<longrightarrow>
            app sep extractall course_title scorm_id uploaded = Inl InvalidArchive)
    \<and> (e \<noteq> BadZipFile \<longrightarrow>
            app sep extractall course_title scorm_id uploaded = Inl (Uncaught e))"
  using assms by (simp add: app_def stage_def)

theorem only_BadZipFile_is_caught_witness:
  "endswith (lower (name \<lparr>name = ''course.zip'', buffer = ''PK''\<rparr>)) ''.zip''
   \<and> unsupported_method (buffer \<lparr>name = ''course.zip'', buffer = ''PK''\<rparr>)
       = Inl NotImplementedError
   \<and> NotImplementedError \<noteq> BadZipFile
   \<and> app (CHR ''/'') unsupported_method ''T'' ''id'' \<lparr>name = ''course.zip'', buffer = ''PK''\<rparr>
       = Inl (Uncaught NotImplementedError)
   \<and> reject_all (buffer \<lparr>name = ''course.zip'', buffer = ''PK''\<rparr>) = Inl BadZipFile
   \<and> app (CHR ''/'') reject_all ''T'' ''id'' \<lparr>name = ''course.zip'', buffer = ''PK''\<rparr>
       = Inl InvalidArchive"
  using only_BadZipFile_is_caught [of "\<lparr>name = ''course.zip'', buffer = ''PK''\<rparr>"
      unsupported_method NotImplementedError "CHR ''/''" "''T''" "''id''"]
    only_BadZipFile_is_caught [of "\<lparr>name = ''course.zip'', buffer = ''PK''\<rparr>"
      reject_all BadZipFile "CHR ''/''" "''T''" "''id''"]
  by (simp add: lower_zip endswith_def unsupported_method_def reject_all_def)

section \<open>A staged \<^verbatim>\<open>imsmanifest.xml\<close> (C10)\<close>

text \<open>
  C10 (as amended). Let an archive be extracted to a tree with a regular file
  \<^verbatim>\<open>imsmanifest.xml\<close> at its root, the names of the root being distinct and every name of
  the tree being a proper name without a backslash, and let \<^verbatim>\<open>html_files\<close> be not empty,
  so that the script reaches the packaging. Then the file list holds the path
  \<^verbatim>\<open>imsmanifest.xml\<close>, computed from the tree before the manifest is generated; the bytes
  of the generated manifest hold the element \<^verbatim>\<open><file href="imsmanifest.xml" />\<close>, and the
  \<^verbatim>\<open>file\<close> children of the resource have this \<^verbatim>\<open>href\<close>; and the archive that is offered
  holds exactly two entries named \<^verbatim>\<open>imsmanifest.xml\<close>: first the staged file with its own
  bytes, then the generated manifest.
\<close>

theorem root_manifest_is_packaged_twice:
  assumes zip: "endswith (lower (name uploaded)) ''.zip''"
    and ex: "extractall (buffer uploaded) = Inr course_root"
    and staged: "File ''imsmanifest.xml'' b \<in> set course_root"
    and names: "distinct (map entry_name course_root)"
    and clean: "\<forall>p\<in>set (rglob ''*'' course_root). \<forall>n\<in>set (fst p). clean_name n"
    and html: "html_files course_root \<noteq> []"
    and sep: "sep = CHR ''/'' \<or> sep = CHR 0x5C"
  shows \<open>\<exists>launch_file files manifest_bytes d pre post.
      resolve sep course_root = Inr (launch_file, files)
    \<and> ''imsmanifest.xml'' \<in> set files
    \<and> generate_manifest course_title scorm_id launch_file files = Inr manifest_bytes
    \<and> manifest_bytes = pre @ ''<file href="imsmanifest.xml" />'' @ post
    \<and> Some ''imsmanifest.xml''
        \<in> set (file_hrefs (manifest_tree course_title scorm_id launch_file files))
    \<and> app sep extractall course_title scorm_id uploaded = Inr d
    \<and> filter (\<lambda>a. fst a = ''imsmanifest.xml'') (data d)
        = [(''imsmanifest.xml'', b), (''imsmanifest.xml'', manifest_bytes)]\<close>
proof -
  from html obtain p ps where h: "html_files course_root = p # ps"
    by (cases "html_files course_root") auto
  define launch_file where "launch_file =
    (if exists_in_root ''index.html'' course_root then ''index.html'' else rel_str sep p)"
  define files where "files = file_list sep course_root"
  have r: "resolve sep course_root = Inr (launch_file, files)"
    by (simp add: resolve_def h launch_file_def files_def)
  have "([''imsmanifest.xml''], File ''imsmanifest.xml'' b) \<in> set (rglob ''*'' course_root)"
    by (rule root_file_listed [OF staged])
  then have "rel_str sep ([''imsmanifest.xml''], File ''imsmanifest.xml'' b) \<in> set files"
    unfolding files_def file_list_def by force
  then have listed: "''imsmanifest.xml'' \<in> set files" by (simp add: rel_str_single)
  from manifest_lists_file [OF listed] obtain pre post where
    m: \<open>generate_manifest course_title scorm_id launch_file files
      = Inr (pre @ ''<file href="imsmanifest.xml" />'' @ post)\<close>
    unfolding file_text_imsmanifest by blast
  define m where \<open>m = pre @ ''<file href="imsmanifest.xml" />'' @ post\<close>
  have g: "generate_manifest course_title scorm_id launch_file files = Inr m"
    using m by (simp add: m_def)
  define entries where "entries =
    map (\<lambda>p. (join ''/'' (fst p), file_bytes (snd p)))
      (filter (\<lambda>p. is_file (snd p)) (rglob ''*'' course_root))
    @ [(''imsmanifest.xml'', m)]"
  define d where "d = \<lparr>file_name = pkg_name course_title, data = entries\<rparr>"
  have e: "archive_entries sep course_root m = Inr entries"
    unfolding entries_def by (rule archive_entries_clean [OF sep clean])
  have s: "stage extractall uploaded = Inr course_root"
    using zip ex by (simp add: stage_def)
  have a: "app sep extractall course_title scorm_id uploaded = Inr d"
    by (simp add: app_def s r g e d_def)
  have one: "filter (\<lambda>e. entry_name e = entry_name (File ''imsmanifest.xml'' b)) course_root
      = [File ''imsmanifest.xml'' b]"
    by (rule filter_distinct_key [OF names staged])
  have "filter (\<lambda>e. is_file e \<and> entry_name e = ''imsmanifest.xml'') course_root
      = filter is_file (filter (\<lambda>e. entry_name e = ''imsmanifest.xml'') course_root)"
    by (simp add: conj_commute)
  also have "\<dots> = [File ''imsmanifest.xml'' b]" using one by simp
  finally have two: "filter (\<lambda>e. is_file e \<and> entry_name e = ''imsmanifest.xml'') course_root
      = [File ''imsmanifest.xml'' b]" .
  have "filter (\<lambda>a. fst a = ''imsmanifest.xml'') entries
      = [(''imsmanifest.xml'', b), (''imsmanifest.xml'', m)]"
    unfolding entries_def by (simp add: staged_entries_named two)
  then have f: "filter (\<lambda>a. fst a = ''imsmanifest.xml'') (data d)
      = [(''imsmanifest.xml'', b), (''imsmanifest.xml'', m)]"
    by (simp add: d_def)
  have "''imsmanifest.xml'' \<in> set (sort files)" using listed by simp
  then have "Some (replace (CHR 0x5C) ''/'' ''imsmanifest.xml'')
      \<in> set (file_hrefs (manifest_tree course_title scorm_id launch_file files))"
    unfolding file_hrefs_manifest_tree by (simp only: set_map) (rule imageI)
  then have hr: "Some ''imsmanifest.xml''
      \<in> set (file_hrefs (manifest_tree course_title scorm_id launch_file files))"
    by simp
  show ?thesis using r listed g m_def hr a f by blast
qed

text \<open>An archive with \<^verbatim>\<open>index.html\<close> and \<^verbatim>\<open>imsmanifest.xml\<close> at its top level.\<close>

theorem root_manifest_witness:
  \<open>endswith (lower ''course.zip'') ''.zip''
   \<and> File ''imsmanifest.xml'' ''<old/>''
        \<in> set [File ''index.html'' ''<html></html>'', File ''imsmanifest.xml'' ''<old/>'']
   \<and> distinct (map entry_name
        [File ''index.html'' ''<html></html>'', File ''imsmanifest.xml'' ''<old/>''])
   \<and> rglob ''*'' [File ''index.html'' ''<html></html>'', File ''imsmanifest.xml'' ''<old/>'']
       = [([''index.html''], File ''index.html'' ''<html></html>''),
          ([''imsmanifest.xml''], File ''imsmanifest.xml'' ''<old/>'')]
   \<and> clean_name ''index.html'' \<and> clean_name ''imsmanifest.xml''
   \<and> html_files [File ''index.html'' ''<html></html>'', File ''imsmanifest.xml'' ''<old/>'']
        \<noteq> []
   \<and> (\<exists>manifest_bytes pre post.
        resolve (CHR ''/'')
          [File ''index.html'' ''<html></html>'', File ''imsmanifest.xml'' ''<old/>'']
          = Inr (''index.html'', [''index.html'', ''imsmanifest.xml''])
      \<and> generate_manifest ''T'' ''id'' ''index.html'' [''index.html'', ''imsmanifest.xml'']
          = Inr manifest_bytes
      \<and> manifest_bytes = pre @ ''<file href="imsmanifest.xml" />'' @ post
      \<and> Some ''imsmanifest.xml''
          \<in> set (file_hrefs (manifest_tree ''T'' ''id'' ''index.html''
                [''index.html'', ''imsmanifest.xml'']))
      \<and> app (CHR ''/'')
          (unzip_to [File ''index.html'' ''<html></html>'', File ''imsmanifest.xml'' ''<old/>''])
          ''T'' ''id'' \<lparr>name = ''course.zip'', buffer = ''PK''\<rparr>
          = Inr \<lparr>file_name = ''T_SCORM.zip'',
                 data = [(''index.html'', ''<html></html>''), (''imsmanifest.xml'', ''<old/>''),
                         (''imsmanifest.xml'', manifest_bytes)]\<rparr>)\<close>
proof -
  let ?root = "[File ''index.html'' ''<html></html>'', File ''imsmanifest.xml'' ''<old/>'']"
  have h: "html_files ?root \<noteq> []"
    by (simp add: html_files_def rglob_def select_from_def)
  have z: "endswith (lower (name \<lparr>name = ''course.zip'', buffer = ''PK''\<rparr>)) ''.zip''"
    by (simp add: lower_zip endswith_def)
  have u: "unzip_to ?root (buffer \<lparr>name = ''course.zip'', buffer = ''PK''\<rparr>) = Inr ?root"
    by (simp add: unzip_to_def)
  have s: "File ''imsmanifest.xml'' ''<old/>'' \<in> set ?root"
    by simp
  have d: "distinct (map entry_name ?root)"
    by simp
  have g: "rglob ''*'' ?root
      = [([''index.html''], File ''index.html'' ''<html></html>''),
         ([''imsmanifest.xml''], File ''imsmanifest.xml'' ''<old/>'')]"
    by (simp add: rglob_def select_from_def)
  have n: "clean_name ''index.html''" "clean_name ''imsmanifest.xml''"
    by (simp_all add: clean_name_def)
  have cl: "\<forall>p\<in>set (rglob ''*'' ?root). \<forall>n\<in>set (fst p). clean_name n"
    by (simp add: g n)
  have c: "CHR ''/'' = CHR ''/'' \<or> CHR ''/'' = CHR 0x5C" by simp
  have r: "resolve (CHR ''/'') ?root
      = Inr (''index.html'', [''index.html'', ''imsmanifest.xml''])"
    by (simp add: resolve_def html_files_def rglob_def select_from_def exists_in_root_def
        file_list_def rel_str_def str_path_def)
  have e: "archive_entries (CHR ''/'') ?root m
      = Inr [(''index.html'', ''<html></html>''), (''imsmanifest.xml'', ''<old/>''),
             (''imsmanifest.xml'', m)]" for m
    by (simp add: archive_entries_def rglob_def select_from_def rel_str_def str_path_def
        zip_arcname_def normpath_def)
  have p: "pkg_name ''T'' = ''T_SCORM.zip''"
    by (simp add: pkg_name_def strip_def isspace_def)
  from root_manifest_is_packaged_twice
    [where uploaded = "\<lparr>name = ''course.zip'', buffer = ''PK''\<rparr>"
       and extractall = "unzip_to ?root" and sep = "CHR ''/''"
       and course_title = "''T''" and scorm_id = "''id''", OF z u s d cl h c]
  obtain launch_file files manifest_bytes dl pre post where
    w: "resolve (CHR ''/'') ?root = Inr (launch_file, files)"
      "generate_manifest ''T'' ''id'' launch_file files = Inr manifest_bytes"
      \<open>manifest_bytes = pre @ ''<file href="imsmanifest.xml" />'' @ post\<close>
      "Some ''imsmanifest.xml''
        \<in> set (file_hrefs (manifest_tree ''T'' ''id'' launch_file files))"
      "app (CHR ''/'') (unzip_to ?root) ''T'' ''id'' \<lparr>name = ''course.zip'', buffer = ''PK''\<rparr>
        = Inr dl"
    by blast
  from w(1) [unfolded r, symmetric] have lf: "launch_file = ''index.html''"
    "files = [''index.html'', ''imsmanifest.xml'']" by simp_all
  have st: "stage (unzip_to ?root) \<lparr>name = ''course.zip'', buffer = ''PK''\<rparr> = Inr ?root"
    using z by (simp add: stage_def unzip_to_def)
  have a: "app (CHR ''/'') (unzip_to ?root) ''T'' ''id''
      \<lparr>name = ''course.zip'', buffer = ''PK''\<rparr>
      = Inr \<lparr>file_name = ''T_SCORM.zip'',
             data = [(''index.html'', ''<html></html>''), (''imsmanifest.xml'', ''<old/>''),
                     (''imsmanifest.xml'', manifest_bytes)]\<rparr>"
    using w(2) unfolding lf by (simp add: app_def st r e p)
  have \<open>\<exists>manifest_bytes pre post.
        resolve (CHR ''/'') ?root = Inr (''index.html'', [''index.html'', ''imsmanifest.xml''])
      \<and> generate_manifest ''T'' ''id'' ''index.html'' [''index.html'', ''imsmanifest.xml'']
          = Inr manifest_bytes
      \<and> manifest_bytes = pre @ ''<file href="imsmanifest.xml" />'' @ post
      \<and> Some ''imsmanifest.xml''
          \<in> set (file_hrefs (manifest_tree ''T'' ''id'' ''index.html''
                [''index.html'', ''imsmanifest.xml'']))
      \<and> app (CHR ''/'') (unzip_to ?root) ''T'' ''id''
          \<lparr>name = ''course.zip'', buffer = ''PK''\<rparr>
          = Inr \<lparr>file_name = ''T_SCORM.zip'',
                 data = [(''index.html'', ''<html></html>''), (''imsmanifest.xml'', ''<old/>''),
                         (''imsmanifest.xml'', manifest_bytes)]\<rparr>\<close>
    using r w(2,3,4) a unfolding lf by blast
  moreover have "endswith (lower ''course.zip'') ''.zip''" using z by simp
  ultimately show ?thesis using s d g n h by (intro conjI) assumption+
qed

text \<open>
  Where \<^verbatim>\<open>imsmanifest.xml\<close> lies in a sub-directory, the tree contains a file of this name,
  but the archive has one entry named \<^verbatim>\<open>imsmanifest.xml\<close>, the generated manifest, and no
  \<^verbatim>\<open>href\<close> is \<^verbatim>\<open>imsmanifest.xml\<close>. Where the root holds, beside \<^verbatim>\<open>imsmanifest.xml\<close>, a file
  whose name is a backslash followed by \<^verbatim>\<open>imsmanifest.xml\<close>, three entries of the archive
  have the name \<^verbatim>\<open>imsmanifest.xml\<close>.
\<close>

theorem nested_manifest_counterexample:
  \<open>file_list (CHR ''/'')
      [File ''index.html'' ''<html></html>'', Dir ''sub'' [File ''imsmanifest.xml'' ''<old/>'']]
     = [''index.html'', ''sub/imsmanifest.xml'']
   \<and> file_hrefs (manifest_tree ''T'' ''id'' ''index.html''
         [''index.html'', ''sub/imsmanifest.xml''])
     = [Some ''index.html'', Some ''sub/imsmanifest.xml'']
   \<and> app (CHR ''/'')
        (unzip_to [File ''index.html'' ''<html></html>'',
                   Dir ''sub'' [File ''imsmanifest.xml'' ''<old/>'']])
        ''T'' ''id'' \<lparr>name = ''course.zip'', buffer = ''PK''\<rparr>
     = Inr \<lparr>file_name = ''T_SCORM.zip'',
            data = [(''index.html'', ''<html></html>''), (''sub/imsmanifest.xml'', ''<old/>''),
                    (''imsmanifest.xml'',
                     ''<?xml version="1.0" encoding="UTF-8"?>'' @ [CHR 0x0A]
        @ ''<manifest xmlns:adlcp="http://www.adlnet.org/xsd/adlcp_v1p3"''
        @ '' identifier="id" version="1">''
        @ ''<metadata><schema>ADL SCORM</schema><schemaversion>1.2</schemaversion></metadata>''
        @ ''<organizations default="ORG-1"><organization identifier="ORG-1">''
        @ ''<title>T</title>''
        @ ''<item identifier="ITEM-1" identifierref="RES-1"><title>T</title></item>''
        @ ''</organization></organizations>''
        @ ''<resources><resource identifier="RES-1" type="webcontent"''
        @ '' adlcp:scormtype="sco" href="index.html">''
        @ ''<file href="index.html" /><file href="sub/imsmanifest.xml" />''
        @ ''</resource></resources></manifest>'')]\<rparr>
   \<and> (\<exists>m. app (CHR ''/'')
        (unzip_to [File ''index.html'' ''<html></html>'', File ''imsmanifest.xml'' ''<old/>'',
                   File (CHR 0x5C # ''imsmanifest.xml'') ''<other/>''])
        ''T'' ''id'' \<lparr>name = ''course.zip'', buffer = ''PK''\<rparr>
     = Inr \<lparr>file_name = ''T_SCORM.zip'',
            data = [(''index.html'', ''<html></html>''), (''imsmanifest.xml'', ''<old/>''),
                    (''imsmanifest.xml'', ''<other/>''), (''imsmanifest.xml'', m)]\<rparr>)\<close>
proof -
  let ?nested = "[File ''index.html'' ''<html></html>'',
    Dir ''sub'' [File ''imsmanifest.xml'' ''<old/>'']]"
  let ?flat = "[File ''index.html'' ''<html></html>'', File ''imsmanifest.xml'' ''<old/>'',
    File (CHR 0x5C # ''imsmanifest.xml'') ''<other/>'']"
  let ?up = "\<lparr>name = ''course.zip'', buffer = ''PK''\<rparr>"
  have l: "file_list (CHR ''/'') ?nested = [''index.html'', ''sub/imsmanifest.xml'']"
    by (simp add: file_list_def rglob_def select_from_def rel_str_def str_path_def)
  have s: "sort [''index.html'', ''sub/imsmanifest.xml'']
      = [''index.html'', ''sub/imsmanifest.xml'']"
    by simp
  have hr: "file_hrefs (manifest_tree ''T'' ''id'' ''index.html''
        [''index.html'', ''sub/imsmanifest.xml''])
      = [Some ''index.html'', Some ''sub/imsmanifest.xml'']"
    by (simp add: file_hrefs_manifest_tree s)
  have p: "pkg_name ''T'' = ''T_SCORM.zip''"
    by (simp add: pkg_name_def strip_def isspace_def)
  have z: "endswith (lower (name ?up)) ''.zip''"
    by (simp add: lower_zip endswith_def)
  have st: "stage (unzip_to r) ?up = Inr r" for r
    using z by (simp add: stage_def unzip_to_def)
  have rn: "resolve (CHR ''/'') ?nested
      = Inr (''index.html'', [''index.html'', ''sub/imsmanifest.xml''])"
    by (simp add: resolve_def html_files_def rglob_def select_from_def exists_in_root_def
        file_list_def rel_str_def str_path_def)
  have gn: \<open>generate_manifest ''T'' ''id'' ''index.html''
        [''index.html'', ''sub/imsmanifest.xml'']
      = Inr (''<?xml version="1.0" encoding="UTF-8"?>'' @ [CHR 0x0A]
        @ ''<manifest xmlns:adlcp="http://www.adlnet.org/xsd/adlcp_v1p3"''
        @ '' identifier="id" version="1">''
        @ ''<metadata><schema>ADL SCORM</schema><schemaversion>1.2</schemaversion></metadata>''
        @ ''<organizations default="ORG-1"><organization identifier="ORG-1">''
        @ ''<title>T</title>''
        @ ''<item identifier="ITEM-1" identifierref="RES-1"><title>T</title></item>''
        @ ''</organization></organizations>''
        @ ''<resources><resource identifier="RES-1" type="webcontent"''
        @ '' adlcp:scormtype="sco" href="index.html">''
        @ ''<file href="index.html" /><file href="sub/imsmanifest.xml" />''
        @ ''</resource></resources></manifest>'')\<close>
    by (simp add: generate_manifest_eq manifest_text_def title_text_def file_text_def s
        escape_attrib_def escape_cdata_def encode_utf8_def utf8_char_def)
  have en: "archive_entries (CHR ''/'') ?nested m
      = Inr [(''index.html'', ''<html></html>''), (''sub/imsmanifest.xml'', ''<old/>''),
             (''imsmanifest.xml'', m)]" for m
    by (simp add: archive_entries_def rglob_def select_from_def rel_str_def str_path_def
        zip_arcname_def normpath_def)
  have an: "app (CHR ''/'') (unzip_to ?nested) ''T'' ''id'' ?up
      = Inr \<lparr>file_name = ''T_SCORM.zip'',
             data = [(''index.html'', ''<html></html>''), (''sub/imsmanifest.xml'', ''<old/>''),
                     (''imsmanifest.xml'', m)]\<rparr>"
    if "generate_manifest ''T'' ''id'' ''index.html''
        [''index.html'', ''sub/imsmanifest.xml''] = Inr m" for m
    using that by (simp add: app_def st rn en p)
  have rf: "resolve (CHR ''/'') ?flat
      = Inr (''index.html'', [''index.html'', ''imsmanifest.xml'', ''/imsmanifest.xml''])"
    by (simp add: resolve_def html_files_def rglob_def select_from_def exists_in_root_def
        file_list_def rel_str_def str_path_def)
  obtain m where gf: "generate_manifest ''T'' ''id'' ''index.html''
      [''index.html'', ''imsmanifest.xml'', ''/imsmanifest.xml''] = Inr m"
    using generate_manifest_eq by blast
  have ef: "archive_entries (CHR ''/'') ?flat m
      = Inr [(''index.html'', ''<html></html>''), (''imsmanifest.xml'', ''<old/>''),
             (''imsmanifest.xml'', ''<other/>''), (''imsmanifest.xml'', m)]"
    by (simp add: archive_entries_def rglob_def select_from_def rel_str_def str_path_def
        zip_arcname_def normpath_def)
  have af: "app (CHR ''/'') (unzip_to ?flat) ''T'' ''id'' ?up
      = Inr \<lparr>file_name = ''T_SCORM.zip'',
             data = [(''index.html'', ''<html></html>''), (''imsmanifest.xml'', ''<old/>''),
                     (''imsmanifest.xml'', ''<other/>''), (''imsmanifest.xml'', m)]\<rparr>"
    by (simp add: app_def st rf gf ef p)
  then have ex: "\<exists>m. app (CHR ''/'') (unzip_to ?flat) ''T'' ''id'' ?up
      = Inr \<lparr>file_name = ''T_SCORM.zip'',
             data = [(''index.html'', ''<html></html>''), (''imsmanifest.xml'', ''<old/>''),
                     (''imsmanifest.xml'', ''<other/>''), (''imsmanifest.xml'', m)]\<rparr>"
    by blast
  show ?thesis
    by (intro conjI) (rule l, rule hr, rule an [OF gn], rule ex)
qed

end
